theory Spec2Isabelle
  imports Main "HOL-Library.Word" "HOL-Library.List_Lexorder" "HOL-Library.Multiset"
begin

unbundle bit_operations_syntax

section \<open>Machine types and constants\<close>

type_synonym u8 = "8 word"
type_synonym u16 = "16 word"
type_synonym u32 = "32 word"

text \<open>
  \<^verbatim>\<open>btaddr_t\<close> and \<^verbatim>\<open>linkkey_t\<close> are arrays of 6 and of 16 bytes. They are byte lists
  here; the lengths are carried by \<open>wf_link_keys\<close> below.
\<close>

type_synonym btaddr_t = "u8 list"
type_synonym linkkey_t = "u8 list"

text \<open>
  Modelled from the spec: \<^verbatim>\<open>hci.h\<close> is not among the sources. Section 6 of the
  specification says that the opcodes and event codes are the ones fixed by the HCI
  standard; these are the standard's values. \<^verbatim>\<open>HCI_EVENT_VENDOR\<close> is also given by the
  comment above \<^verbatim>\<open>FakeSyncButtonPressedEvent\<close> (\<^verbatim>\<open>Vendor (0xff)\<close>).
\<close>

definition HCI_CMD_RESET :: u16 where "HCI_CMD_RESET = 0x0C03"
definition HCI_CMD_WRITE_STORED_LINK_KEY :: u16 where "HCI_CMD_WRITE_STORED_LINK_KEY = 0x0C11"
definition HCI_CMD_DELETE_STORED_LINK_KEY :: u16 where "HCI_CMD_DELETE_STORED_LINK_KEY = 0x0C12"
definition HCI_CMD_READ_BUFFER_SIZE :: u16 where "HCI_CMD_READ_BUFFER_SIZE = 0x1005"
definition HCI_EVENT_COMMAND_COMPL :: u8 where "HCI_EVENT_COMMAND_COMPL = 0x0E"
definition HCI_EVENT_LINK_KEY_NOTIFICATION :: u8 where "HCI_EVENT_LINK_KEY_NOTIFICATION = 0x18"
definition HCI_EVENT_VENDOR :: u8 where "HCI_EVENT_VENDOR = 0xFF"

text \<open>
  Modelled from the spec: the structure declarations of \<^verbatim>\<open>hci.h\<close> are not among the
  sources. Section 6 gives the wire layouts: a command header is a 2-byte opcode and a
  1-byte length; an event header is a 1-byte code and a 1-byte length; a command-complete
  event goes on with a 1-byte packet count and the 2-byte opcode; the delete-stored-link-key
  parameters are a 6-byte address and a 1-byte flag; the write-stored-link-key parameters
  start with a 1-byte count; the read-buffer-size reply is 1 + 2 + 1 + 2 + 1 bytes.
\<close>

definition sizeof_hci_cmd_hdr_t :: nat where "sizeof_hci_cmd_hdr_t = 3"
definition sizeof_hci_event_hdr_t :: nat where "sizeof_hci_event_hdr_t = 2"
definition sizeof_SHCIEventCommand :: nat where "sizeof_SHCIEventCommand = 5"
definition sizeof_hci_delete_stored_link_key_cp :: nat where "sizeof_hci_delete_stored_link_key_cp = 7"
definition sizeof_hci_write_stored_link_key_cp :: nat where "sizeof_hci_write_stored_link_key_cp = 1"
definition sizeof_hci_read_buffer_size_rp :: nat where "sizeof_hci_read_buffer_size_rp = 7"
definition sizeof_btaddr_t :: nat where "sizeof_btaddr_t = 6"
definition sizeof_linkkey_t :: nat where "sizeof_linkkey_t = 16"

text \<open>
  Modelled from the spec: \<^verbatim>\<open>SYNC_BUTTON_HOLD_MS_TO_RESET\<close> is declared in \<^verbatim>\<open>BTReal.h\<close>,
  which is not among the sources. The specification gives the threshold as 10 seconds; the
  name gives the unit.
\<close>

definition SYNC_BUTTON_HOLD_MS_TO_RESET :: nat where "SYNC_BUTTON_HOLD_MS_TO_RESET = 10000"

text \<open>
  The figures of the faked read-buffer-size reply and the number of the event endpoint are
  declared in headers that are not among the sources, and the specification does not give
  their values: they are parameters of the model.
\<close>

record bt_constants =
  ACL_PKT_SIZE :: u16
  ACL_PKT_NUM :: u8
  SCO_PKT_SIZE :: u16
  SCO_PKT_NUM :: u8
  HCI_EVENT :: u8

section \<open>The link key store\<close>

text \<open>
  \<^verbatim>\<open>s_link_keys\<close> is a \<^verbatim>\<open>std::map<btaddr_t, linkkey_t>\<close>: its entries are kept in the
  lexicographic order of the addresses, which is the order in which the two loops over
  the map (\<^verbatim>\<open>SaveLinkKeys\<close>, \<^verbatim>\<open>SendHCIStoreLinkKeyCommand\<close>) see them.
\<close>

type_synonym link_keys = "(btaddr_t \<times> linkkey_t) list"

text \<open>\<^verbatim>\<open>s_link_keys[addr] = key\<close>\<close>

fun map_assign :: "btaddr_t \<Rightarrow> linkkey_t \<Rightarrow> link_keys \<Rightarrow> link_keys" where
  "map_assign a k [] = [(a, k)]"
| "map_assign a k ((a', k') # es) =
     (if a < a' then (a, k) # (a', k') # es
      else if a = a' then (a, k) # es
      else (a', k') # map_assign a k es)"

text \<open>\<^verbatim>\<open>s_link_keys.erase(addr)\<close>\<close>

definition map_erase :: "btaddr_t \<Rightarrow> link_keys \<Rightarrow> link_keys" where
  "map_erase a es = filter (\<lambda>e. fst e \<noteq> a) es"

text \<open>What the types of the map guarantee: one entry per address, in order, 6 and 16 bytes.\<close>

definition wf_link_keys :: "link_keys \<Rightarrow> bool" where
  "wf_link_keys es \<longleftrightarrow>
     sorted_wrt (<) (map fst es) \<and>
     list_all (\<lambda>e. length (fst e) = sizeof_btaddr_t \<and> length (snd e) = sizeof_linkkey_t) es"

text \<open>The stores that the three mutations of the source build from the empty map.\<close>

inductive reachable_link_keys :: "link_keys \<Rightarrow> bool" where
  empty: "reachable_link_keys []"
| upsert: "reachable_link_keys es \<Longrightarrow> length a = sizeof_btaddr_t \<Longrightarrow> length k = sizeof_linkkey_t
     \<Longrightarrow> reachable_link_keys (map_assign a k es)"
| delete_one: "reachable_link_keys es \<Longrightarrow> reachable_link_keys (map_erase a es)"
| delete_all: "reachable_link_keys es \<Longrightarrow> reachable_link_keys []"

section \<open>The sync button\<close>

text \<open>
  Modelled from the spec: the enumeration is declared in \<^verbatim>\<open>BTReal.h\<close>, which is not among
  the sources; the source uses these five values and the specification lists them.
\<close>

datatype SyncButtonState = Unpressed | Held | Pressed | LongPressed | Ignored

section \<open>The state of the device\<close>

text \<open>
  The three file-level statics and the members of \<^verbatim>\<open>BluetoothReal\<close> that the modelled
  functions read or write. \<open>m_sync_button_held_timer\<close> holds the time of the last
  \<^verbatim>\<open>Update()\<close>, in milliseconds.
\<close>

record State =
  s_link_keys :: link_keys
  s_need_reset_keys :: bool
  s_showed_failed_transfer :: bool
  m_is_wii_bt_module :: bool
  m_fake_read_buffer_size_reply :: bool
  m_fake_vendor_command_reply :: bool
  m_fake_vendor_command_reply_opcode :: u16
  m_sync_button_state :: SyncButtonState
  m_sync_button_held_timer :: nat

text \<open>
  Modelled from the spec: \<^verbatim>\<open>Common::Timer\<close> is not among the sources. \<^verbatim>\<open>Update()\<close> records
  the current time and \<^verbatim>\<open>GetTimeDifference()\<close> is the time elapsed since then; the
  specification speaks of one held sample at one time, so a call reads the clock once
  (\<open>now\<close>).
\<close>

definition Timer_GetTimeDifference :: "nat \<Rightarrow> State \<Rightarrow> nat" where
  "Timer_GetTimeDifference now s = now - m_sync_button_held_timer s"

definition UpdateSyncButtonState :: "nat \<Rightarrow> State \<Rightarrow> bool \<Rightarrow> State" where
  "UpdateSyncButtonState now s is_held =
     (let s1 = (if m_sync_button_state s = Unpressed \<and> is_held
                then s\<lparr>m_sync_button_held_timer := now, m_sync_button_state := Held\<rparr>
                else s);
          s2 = (if m_sync_button_state s1 = Held \<and> is_held \<and>
                   Timer_GetTimeDifference now s1 > SYNC_BUTTON_HOLD_MS_TO_RESET
                then s1\<lparr>m_sync_button_state := LongPressed\<rparr>
                else if m_sync_button_state s1 = Held \<and> \<not> is_held
                then s1\<lparr>m_sync_button_state := Pressed\<rparr>
                else s1)
      in if m_sync_button_state s2 = Ignored \<and> \<not> is_held
         then s2\<lparr>m_sync_button_state := Unpressed\<rparr>
         else s2)"

definition TriggerSyncButtonPressedEvent :: "State \<Rightarrow> State" where
  "TriggerSyncButtonPressedEvent s = s\<lparr>m_sync_button_state := Pressed\<rparr>"

definition TriggerSyncButtonHeldEvent :: "State \<Rightarrow> State" where
  "TriggerSyncButtonHeldEvent s = s\<lparr>m_sync_button_state := LongPressed\<rparr>"

section \<open>Guest requests and what the device does to the outside\<close>

text \<open>
  The constructors of \<^verbatim>\<open>USB::V0CtrlMessage\<close> and \<^verbatim>\<open>USB::V0IntrMessage\<close> are not among
  the sources: the messages they build from a request are taken as given.
  \<open>ios_request\<close> is the handle of the guest request, to which a reply is addressed.
\<close>

record V0CtrlMessage =
  ctrl_ios_request :: u32
  ctrl_request_type :: u8
  ctrl_request :: u8
  ctrl_value :: u16
  ctrl_index :: u16
  ctrl_length :: u16
  ctrl_data_address :: u32

record V0IntrMessage =
  intr_ios_request :: u32
  intr_data_address :: u32
  intr_endpoint :: u8
  intr_length :: u16

text \<open>\<open>request.request\<close>, with the message of the three kinds that the switch knows.\<close>

datatype IOCtlVRequest =
    IOCTLV_USBV0_CTRLMSG V0CtrlMessage
  | IOCTLV_USBV0_BLKMSG V0IntrMessage
  | IOCTLV_USBV0_INTRMSG V0IntrMessage
  | IOCTLV_OTHER u32

record SHCIEventCommand =
  EventType :: u8
  PayloadLength :: u8
  PacketIndicator :: u8
  Opcode :: u16

record hci_read_buffer_size_rp =
  status :: u8
  max_acl_size :: u16
  num_acl_pkts :: u8
  max_sco_size :: u16
  num_sco_pkts :: u8

record hci_event_hdr_t =
  hdr_event :: u8
  hdr_length :: u8

datatype emu_data =
    EventCommand SHCIEventCommand
  | ReadBufferSizeRp hci_read_buffer_size_rp
  | EventHdr hci_event_hdr_t
  | Bytes "u8 list"

datatype libusb_transfer_type = LIBUSB_TRANSFER_TYPE_BULK | LIBUSB_TRANSFER_TYPE_INTERRUPT

text \<open>
  An asynchronous transfer handed to \<^verbatim>\<open>libusb_submit_transfer\<close>. A control transfer carries
  its message (\<open>user_data\<close>, for \<^verbatim>\<open>CommandCallback\<close>) and its buffer; a bulk or interrupt
  transfer carries its message (for \<^verbatim>\<open>TransferCallback\<close>), whose fields give the buffer, the
  endpoint and the length.
\<close>

datatype libusb_transfer =
    control_transfer V0CtrlMessage "u8 list"
  | data_transfer libusb_transfer_type V0IntrMessage

text \<open>
  Everything a call does beyond changing the state, in the order in which it does it:
  a synchronous control transfer of a packet, one blocking interrupt read, the submission
  of an asynchronous transfer, a write to guest memory, a reply to a guest request with its
  return value, and the two kinds of message to the operator.
\<close>

datatype effect =
    libusb_control_transfer "u8 list"
  | libusb_interrupt_transfer
  | libusb_submit_transfer libusb_transfer
  | CopyToEmu u32 emu_data
  | EnqueueReply u32 int
  | DisplayMessage string
  | PanicAlertT string

text \<open>An out-of-range write to an array or a vector: the behaviour of the source is undefined.\<close>

datatype error = OutOfBounds

text \<open>
  What one blocking interrupt read of \<^verbatim>\<open>WaitForHCICommandComplete\<close> returns: the result of
  \<^verbatim>\<open>libusb_interrupt_transfer\<close>, and the event code and the opcode found in the buffer.
\<close>

record poll_result =
  poll_ret :: int
  poll_event :: u8
  poll_opcode :: u16

text \<open>
  What a call of \<^verbatim>\<open>IOCtlV\<close> reads from outside: the guest memory, and the results of the
  blocking interrupt reads it may make (a read past the end of the list fails).
\<close>

record env =
  memory :: "u32 \<Rightarrow> u8"
  polls :: "poll_result list"

section \<open>Guest memory and byte order\<close>

definition le16 :: "u16 \<Rightarrow> u8 list" where
  "le16 w = [ucast w, ucast (drop_bit 8 w)]"

definition of_le16 :: "u8 \<Rightarrow> u8 \<Rightarrow> u16" where
  "of_le16 lo hi = ucast lo OR push_bit 8 (ucast hi)"

text \<open>
  Modelled from the spec: \<^verbatim>\<open>Memory::Read_U16\<close> and \<^verbatim>\<open>Common::swap16\<close> are not among the
  sources. The specification says that the opcode is the first two bytes of the payload,
  little-endian, read from guest memory.
\<close>

definition swap16_Read_U16 :: "(u32 \<Rightarrow> u8) \<Rightarrow> u32 \<Rightarrow> u16" where
  "swap16_Read_U16 mem a = of_le16 (mem a) (mem (a + 1))"

definition CopyFromEmu :: "(u32 \<Rightarrow> u8) \<Rightarrow> u32 \<Rightarrow> nat \<Rightarrow> u8 list" where
  "CopyFromEmu mem a n = map (\<lambda>i. mem (a + of_nat i)) [0..<n]"

record hci_delete_stored_link_key_cp =
  bdaddr :: btaddr_t
  delete_all :: u8

text \<open>\<^verbatim>\<open>Memory::CopyFromEmu(&delete_cmd, address, sizeof(delete_cmd))\<close>\<close>

definition CopyFromEmu_delete_cmd :: "(u32 \<Rightarrow> u8) \<Rightarrow> u32 \<Rightarrow> hci_delete_stored_link_key_cp" where
  "CopyFromEmu_delete_cmd mem a =
     \<lparr>bdaddr = CopyFromEmu mem a sizeof_btaddr_t, delete_all = mem (a + of_nat sizeof_btaddr_t)\<rparr>"

section \<open>Commands sent to the adapter by the device itself\<close>

text \<open>
  The loop of at most 100 blocking reads; the first argument counts the tries that are left.
\<close>

fun wait_tries :: "nat \<Rightarrow> u16 \<Rightarrow> poll_result list \<Rightarrow> effect list \<times> poll_result list" where
  "wait_tries 0 opcode ps = ([], ps)"
| "wait_tries (Suc n) opcode [] =
     (let (es, ps') = wait_tries n opcode [] in (libusb_interrupt_transfer # es, ps'))"
| "wait_tries (Suc n) opcode (p # ps) =
     (if poll_ret p = 0 \<and> poll_event p = HCI_EVENT_COMMAND_COMPL \<and> poll_opcode p = opcode
      then ([libusb_interrupt_transfer], ps)
      else let (es, ps') = wait_tries n opcode ps in (libusb_interrupt_transfer # es, ps'))"

definition WaitForHCICommandComplete :: "u16 \<Rightarrow> poll_result list \<Rightarrow> effect list \<times> poll_result list" where
  "WaitForHCICommandComplete opcode ps = wait_tries 100 opcode ps"

text \<open>
  The packet has room for the header and the parameters, so every write is in range. The
  host is little-endian: the header's opcode is stored low byte first.
\<close>

definition SendHCIDeleteLinkKeyCommand :: "effect list" where
  "SendHCIDeleteLinkKeyCommand =
     [libusb_control_transfer
        (le16 HCI_CMD_DELETE_STORED_LINK_KEY @ [of_nat sizeof_hci_delete_stored_link_key_cp] @
         replicate sizeof_btaddr_t 0 @ [1])]"

text \<open>A copy of \<open>src\<close> into \<open>dst\<close> from position \<open>pos\<close> on; \<open>dst\<close> does not grow.\<close>

definition copy_to :: "u8 list \<Rightarrow> nat \<Rightarrow> u8 list \<Rightarrow> error + u8 list" where
  "copy_to src pos dst =
     (if pos + length src \<le> length dst
      then Inr (take pos dst @ src @ drop (pos + length src) dst)
      else Inl OutOfBounds)"

text \<open>The loop over the map, with the iterator as a position in the packet.\<close>

fun copy_entries :: "link_keys \<Rightarrow> nat \<Rightarrow> u8 list \<Rightarrow> error + u8 list" where
  "copy_entries [] iterator packet = Inr packet"
| "copy_entries (entry # es) iterator packet =
     (case copy_to (fst entry) iterator packet of
        Inl e \<Rightarrow> Inl e
      | Inr packet1 \<Rightarrow>
          (case copy_to (snd entry) (iterator + length (fst entry)) packet1 of
             Inl e \<Rightarrow> Inl e
           | Inr packet2 \<Rightarrow>
               copy_entries es (iterator + length (fst entry) + length (snd entry)) packet2))"

text \<open>
  \<open>payload_size\<close> is a \<^verbatim>\<open>u8\<close>: the sum is cut to 8 bits, and so is the number of keys. The
  result is whether a command was sent, with the command.
\<close>

definition SendHCIStoreLinkKeyCommand :: "link_keys \<Rightarrow> error + (bool \<times> effect list)" where
  "SendHCIStoreLinkKeyCommand keys =
     (if keys = [] then Inr (False, [])
      else
        let payload_size :: u8 =
              of_nat (sizeof_hci_write_stored_link_key_cp +
                      (sizeof_btaddr_t + sizeof_linkkey_t) * unat (of_nat (length keys) :: u8));
            packet = replicate (sizeof_hci_cmd_hdr_t + unat payload_size) 0
        in case copy_to (le16 HCI_CMD_WRITE_STORED_LINK_KEY @ [payload_size]) 0 packet of
             Inl e \<Rightarrow> Inl e
           | Inr packet1 \<Rightarrow>
               (case copy_to [of_nat (length keys)] sizeof_hci_cmd_hdr_t packet1 of
                  Inl e \<Rightarrow> Inl e
                | Inr packet2 \<Rightarrow>
                    (case copy_entries keys
                            (sizeof_hci_cmd_hdr_t + sizeof_hci_write_stored_link_key_cp) packet2 of
                       Inl e \<Rightarrow> Inl e
                     | Inr packet3 \<Rightarrow> Inr (True, [libusb_control_transfer packet3]))))"

section \<open>Faked replies\<close>

text \<open>
  Each function reads the structure from the guest buffer, sets every field that the source
  names, and writes it back: the structure written is the one given here.
\<close>

definition FakeVendorCommandReply :: "State \<Rightarrow> V0IntrMessage \<Rightarrow> effect list" where
  "FakeVendorCommandReply s ctrl =
     [CopyToEmu (intr_data_address ctrl)
        (EventCommand \<lparr>EventType = HCI_EVENT_COMMAND_COMPL,
                       PayloadLength = of_nat (sizeof_SHCIEventCommand - 2),
                       PacketIndicator = 0x01,
                       Opcode = m_fake_vendor_command_reply_opcode s\<rparr>),
      EnqueueReply (intr_ios_request ctrl) (int sizeof_SHCIEventCommand)]"

definition FakeReadBufferSizeReply :: "bt_constants \<Rightarrow> V0IntrMessage \<Rightarrow> effect list" where
  "FakeReadBufferSizeReply K ctrl =
     [CopyToEmu (intr_data_address ctrl)
        (EventCommand \<lparr>EventType = HCI_EVENT_COMMAND_COMPL,
                       PayloadLength = of_nat (sizeof_SHCIEventCommand - 2 + sizeof_hci_read_buffer_size_rp),
                       PacketIndicator = 0x01,
                       Opcode = HCI_CMD_READ_BUFFER_SIZE\<rparr>),
      CopyToEmu (intr_data_address ctrl + of_nat sizeof_SHCIEventCommand)
        (ReadBufferSizeRp \<lparr>status = 0x00,
                           max_acl_size = ACL_PKT_SIZE K,
                           num_acl_pkts = ACL_PKT_NUM K,
                           max_sco_size = SCO_PKT_SIZE K,
                           num_sco_pkts = SCO_PKT_NUM K\<rparr>),
      EnqueueReply (intr_ios_request ctrl)
        (int (sizeof_SHCIEventCommand + sizeof_hci_read_buffer_size_rp))]"

definition FakeSyncButtonEvent :: "V0IntrMessage \<Rightarrow> u8 list \<Rightarrow> effect list" where
  "FakeSyncButtonEvent ctrl payload =
     [CopyToEmu (intr_data_address ctrl)
        (EventHdr \<lparr>hdr_event = HCI_EVENT_VENDOR, hdr_length = of_nat (length payload)\<rparr>),
      CopyToEmu (intr_data_address ctrl + of_nat sizeof_hci_event_hdr_t) (Bytes payload),
      EnqueueReply (intr_ios_request ctrl) (int (sizeof_hci_event_hdr_t + length payload))]"

definition FakeSyncButtonPressedEvent :: "State \<Rightarrow> V0IntrMessage \<Rightarrow> State \<times> effect list" where
  "FakeSyncButtonPressedEvent s ctrl =
     (s\<lparr>m_sync_button_state := Ignored\<rparr>, FakeSyncButtonEvent ctrl [0x08])"

definition FakeSyncButtonHeldEvent :: "State \<Rightarrow> V0IntrMessage \<Rightarrow> State \<times> effect list" where
  "FakeSyncButtonHeldEvent s ctrl =
     (s\<lparr>m_sync_button_state := Ignored\<rparr>, FakeSyncButtonEvent ctrl [0x09])"

section \<open>Requests of the guest\<close>

text \<open>
  The eight bytes that \<^verbatim>\<open>libusb_fill_control_setup\<close> writes at the head of the buffer of
  a control transfer (multi-byte fields low byte first).
\<close>

definition libusb_fill_control_setup :: "u8 \<Rightarrow> u8 \<Rightarrow> u16 \<Rightarrow> u16 \<Rightarrow> u16 \<Rightarrow> u8 list" where
  "libusb_fill_control_setup bmRequestType bRequest wValue wIndex wLength =
     [bmRequestType, bRequest] @ le16 wValue @ le16 wIndex @ le16 wLength"

text \<open>
  The \<^verbatim>\<open>switch\<close> of \<^verbatim>\<open>IOCtlV\<close>. The function returns \<^verbatim>\<open>GetNoReply()\<close> on every path, so
  the result is the new state and what was done. A request of another kind falls through
  the switch.
\<close>

fun IOCtlV_switch :: "bt_constants \<Rightarrow> (u32 \<Rightarrow> u8) \<Rightarrow> State \<Rightarrow> IOCtlVRequest \<Rightarrow> State \<times> effect list" where
  "IOCtlV_switch K mem s (IOCTLV_USBV0_CTRLMSG cmd) =
     (let opcode = swap16_Read_U16 mem (ctrl_data_address cmd) in
      if opcode = HCI_CMD_READ_BUFFER_SIZE then
        (s\<lparr>m_fake_read_buffer_size_reply := True\<rparr>, [])
      else if \<not> m_is_wii_bt_module s \<and> (opcode = 0xFC4C \<or> opcode = 0xFC4F) then
        (s\<lparr>m_fake_vendor_command_reply := True,
           m_fake_vendor_command_reply_opcode := opcode\<rparr>, [])
      else
        let s1 = (if opcode = HCI_CMD_DELETE_STORED_LINK_KEY then
                    let delete_cmd = CopyFromEmu_delete_cmd mem (ctrl_data_address cmd) in
                    if delete_all delete_cmd \<noteq> 0 then s\<lparr>s_link_keys := []\<rparr>
                    else s\<lparr>s_link_keys := map_erase (bdaddr delete_cmd) (s_link_keys s)\<rparr>
                  else s);
            buffer = libusb_fill_control_setup (ctrl_request_type cmd) (ctrl_request cmd)
                       (ctrl_value cmd) (ctrl_index cmd) (ctrl_length cmd) @
                     CopyFromEmu mem (ctrl_data_address cmd) (unat (ctrl_length cmd))
        in (s1, [libusb_submit_transfer (control_transfer cmd buffer)]))"
| "IOCtlV_switch K mem s (IOCTLV_USBV0_BLKMSG buffer) =
     (s, [libusb_submit_transfer (data_transfer LIBUSB_TRANSFER_TYPE_BULK buffer)])"
| "IOCtlV_switch K mem s (IOCTLV_USBV0_INTRMSG buffer) =
     (if m_sync_button_state s = Pressed then
        (let (s1, es) = FakeSyncButtonPressedEvent s buffer
         in (s1, DisplayMessage ''Scanning for Wii Remotes'' # es))
      else if m_sync_button_state s = LongPressed then
        (let (s1, es) = FakeSyncButtonHeldEvent s buffer
         in (s1, DisplayMessage ''Reset saved Wii Remote pairings'' # es))
      else if m_fake_read_buffer_size_reply s then
        (s\<lparr>m_fake_read_buffer_size_reply := False\<rparr>, FakeReadBufferSizeReply K buffer)
      else if m_fake_vendor_command_reply s then
        (s\<lparr>m_fake_vendor_command_reply := False\<rparr>,
         FakeVendorCommandReply (s\<lparr>m_fake_vendor_command_reply := False\<rparr>) buffer)
      else
        (s, [libusb_submit_transfer (data_transfer LIBUSB_TRANSFER_TYPE_INTERRUPT buffer)]))"
| "IOCtlV_switch K mem s (IOCTLV_OTHER n) = (s, [])"

text \<open>
  \<^verbatim>\<open>IOCtlV\<close>: the resending of the link keys, when the adapter is not the Wii's module and
  the latch is set (the latch is tested, and cleared, only for such an adapter), then the
  switch.
\<close>

definition IOCtlV :: "bt_constants \<Rightarrow> env \<Rightarrow> State \<Rightarrow> IOCtlVRequest \<Rightarrow> error + (State \<times> effect list)" where
  "IOCtlV K E s request =
     (if \<not> m_is_wii_bt_module s \<and> s_need_reset_keys s then
        let s1 = s\<lparr>s_need_reset_keys := False\<rparr>;
            (wait1, polls1) = WaitForHCICommandComplete HCI_CMD_DELETE_STORED_LINK_KEY (polls E)
        in case SendHCIStoreLinkKeyCommand (s_link_keys s1) of
             Inl e \<Rightarrow> Inl e
           | Inr (sent, store_cmd) \<Rightarrow>
               let wait2 = (if sent
                            then fst (WaitForHCICommandComplete HCI_CMD_WRITE_STORED_LINK_KEY polls1)
                            else []);
                   (s2, own) = IOCtlV_switch K (memory E) s1 request
               in Inr (s2, SendHCIDeleteLinkKeyCommand @ wait1 @ store_cmd @ wait2 @ own)
      else
        let (s2, own) = IOCtlV_switch K (memory E) s request in Inr (s2, own))"

section \<open>Completion callbacks\<close>

datatype libusb_transfer_status =
    LIBUSB_TRANSFER_COMPLETED
  | LIBUSB_TRANSFER_ERROR
  | LIBUSB_TRANSFER_TIMED_OUT
  | LIBUSB_TRANSFER_CANCELLED
  | LIBUSB_TRANSFER_STALL
  | LIBUSB_TRANSFER_NO_DEVICE
  | LIBUSB_TRANSFER_OVERFLOW

text \<open>
  What the transport reports when a transfer completes: the status, the length, and the
  bytes found from the start of the data on.
\<close>

record completion =
  tr_status :: libusb_transfer_status
  tr_actual_length :: int
  tr_data :: "nat \<Rightarrow> u8"

text \<open>
  Modelled from the spec: \<^verbatim>\<open>FillBuffer\<close> is not among the sources; the specification says
  that the adapter's response bytes are copied back to the guest's buffer.
\<close>

definition FillBuffer :: "V0CtrlMessage \<Rightarrow> (nat \<Rightarrow> u8) \<Rightarrow> int \<Rightarrow> effect list" where
  "FillBuffer cmd src n = [CopyToEmu (ctrl_data_address cmd) (Bytes (map src [0..<nat n]))]"

definition CommandCallback :: "State \<Rightarrow> V0CtrlMessage \<Rightarrow> completion \<Rightarrow> State \<times> effect list" where
  "CommandCallback s cmd tr =
     (let (s1, es) =
            (if tr_status tr \<noteq> LIBUSB_TRANSFER_COMPLETED \<and> tr_status tr \<noteq> LIBUSB_TRANSFER_NO_DEVICE then
               (if \<not> s_showed_failed_transfer s then
                  (s\<lparr>s_showed_failed_transfer := True\<rparr>,
                   [DisplayMessage ''Failed to send a command to the Bluetooth adapter.'',
                    DisplayMessage ''It may not be compatible with passthrough mode.''])
                else (s, []))
             else (s\<lparr>s_showed_failed_transfer := False\<rparr>, []))
      in (s1, es @ FillBuffer cmd (tr_data tr) (tr_actual_length tr) @
              [EnqueueReply (ctrl_ios_request cmd) (tr_actual_length tr)]))"

text \<open>
  The event starts with its header; a link key notification goes on with the address and the
  key, a command-complete event with a packet count and the opcode.
\<close>

definition TransferCallback :: "bt_constants \<Rightarrow> State \<Rightarrow> V0IntrMessage \<Rightarrow> completion \<Rightarrow> State \<times> effect list" where
  "TransferCallback K s ctrl tr =
     (let (s1, es) =
            (if tr_status tr \<noteq> LIBUSB_TRANSFER_COMPLETED \<and> tr_status tr \<noteq> LIBUSB_TRANSFER_TIMED_OUT \<and>
                tr_status tr \<noteq> LIBUSB_TRANSFER_NO_DEVICE then
               (if \<not> s_showed_failed_transfer s then
                  (s\<lparr>s_showed_failed_transfer := True\<rparr>,
                   [DisplayMessage ''Failed to transfer to or from to the Bluetooth adapter.'',
                    DisplayMessage ''It may not be compatible with passthrough mode.''])
                else (s, []))
             else (s\<lparr>s_showed_failed_transfer := False\<rparr>, []));
          s2 = (if tr_status tr = LIBUSB_TRANSFER_COMPLETED \<and> intr_endpoint ctrl = HCI_EVENT K then
                  (if tr_data tr 0 = HCI_EVENT_LINK_KEY_NOTIFICATION then
                     s1\<lparr>s_link_keys :=
                          map_assign
                            (map (\<lambda>i. tr_data tr (sizeof_hci_event_hdr_t + i)) [0..<sizeof_btaddr_t])
                            (map (\<lambda>i. tr_data tr (sizeof_hci_event_hdr_t + sizeof_btaddr_t + i))
                               [0..<sizeof_linkkey_t])
                            (s_link_keys s1)\<rparr>
                   else if tr_data tr 0 = HCI_EVENT_COMMAND_COMPL \<and>
                           of_le16 (tr_data tr (sizeof_hci_event_hdr_t + 1))
                                   (tr_data tr (sizeof_hci_event_hdr_t + 2)) = HCI_CMD_RESET then
                     s1\<lparr>s_need_reset_keys := True\<rparr>
                   else s1)
                else s1)
      in (s2, es @ [EnqueueReply (intr_ios_request ctrl) (tr_actual_length tr)]))"

section \<open>Runs of the device\<close>

text \<open>
  What can happen to an open device: the guest sends a request, the transport completes one
  of the transfers in flight (the callbacks run one at a time), the sync button is sampled
  at some time, or one of the two triggers is called.
\<close>

datatype event =
    Guest env IOCtlVRequest
  | Complete nat completion
  | SyncSample nat bool
  | TriggerPressed
  | TriggerHeld

record world =
  dev :: State
  in_flight :: "libusb_transfer list"
  done_so_far :: "effect list"

fun submitted :: "effect list \<Rightarrow> libusb_transfer list" where
  "submitted [] = []"
| "submitted (libusb_submit_transfer t # es) = t # submitted es"
| "submitted (e # es) = submitted es"

fun replied :: "effect list \<Rightarrow> u32 list" where
  "replied [] = []"
| "replied (EnqueueReply h n # es) = h # replied es"
| "replied (e # es) = replied es"

fun transfer_handle :: "libusb_transfer \<Rightarrow> u32" where
  "transfer_handle (control_transfer cmd buffer) = ctrl_ios_request cmd"
| "transfer_handle (data_transfer ty ctrl) = intr_ios_request ctrl"

fun callback :: "bt_constants \<Rightarrow> State \<Rightarrow> libusb_transfer \<Rightarrow> completion \<Rightarrow> State \<times> effect list" where
  "callback K s (control_transfer cmd buffer) tr = CommandCallback s cmd tr"
| "callback K s (data_transfer ty ctrl) tr = TransferCallback K s ctrl tr"

fun step :: "bt_constants \<Rightarrow> world \<Rightarrow> event \<Rightarrow> error + world" where
  "step K w (Guest E request) =
     (case IOCtlV K E (dev w) request of
        Inl e \<Rightarrow> Inl e
      | Inr (s, es) \<Rightarrow>
          Inr \<lparr>dev = s, in_flight = in_flight w @ submitted es, done_so_far = done_so_far w @ es\<rparr>)"
| "step K w (Complete i tr) =
     (if i < length (in_flight w) then
        (let (s, es) = callback K (dev w) (in_flight w ! i) tr
         in Inr \<lparr>dev = s, in_flight = take i (in_flight w) @ drop (Suc i) (in_flight w),
                 done_so_far = done_so_far w @ es\<rparr>)
      else Inr w)"
| "step K w (SyncSample now is_held) = Inr (w\<lparr>dev := UpdateSyncButtonState now (dev w) is_held\<rparr>)"
| "step K w TriggerPressed = Inr (w\<lparr>dev := TriggerSyncButtonPressedEvent (dev w)\<rparr>)"
| "step K w TriggerHeld = Inr (w\<lparr>dev := TriggerSyncButtonHeldEvent (dev w)\<rparr>)"

fun run :: "bt_constants \<Rightarrow> world \<Rightarrow> event list \<Rightarrow> error + world" where
  "run K w [] = Inr w"
| "run K w (ev # evs) = (case step K w ev of Inl e \<Rightarrow> Inl e | Inr w' \<Rightarrow> run K w' evs)"

section \<open>The link keys in the configuration\<close>

text \<open>The two hexadecimal digits that \<^verbatim>\<open>std::hex\<close>, \<^verbatim>\<open>setfill('0')\<close> and \<^verbatim>\<open>setw(2)\<close> print for a byte.\<close>

definition hex_digit :: "nat \<Rightarrow> char" where
  "hex_digit n = ''0123456789abcdef'' ! n"

definition hex2 :: "u8 \<Rightarrow> string" where
  "hex2 b = [hex_digit (unat b div 16), hex_digit (unat b mod 16)]"

definition hex_value :: "char \<Rightarrow> nat option" where
  "hex_value c =
     map_of [(CHR ''0'', 0), (CHR ''1'', 1), (CHR ''2'', 2), (CHR ''3'', 3), (CHR ''4'', 4),
             (CHR ''5'', 5), (CHR ''6'', 6), (CHR ''7'', 7), (CHR ''8'', 8), (CHR ''9'', 9),
             (CHR ''a'', 10), (CHR ''b'', 11), (CHR ''c'', 12), (CHR ''d'', 13), (CHR ''e'', 14),
             (CHR ''f'', 15), (CHR ''A'', 10), (CHR ''B'', 11), (CHR ''C'', 12), (CHR ''D'', 13),
             (CHR ''E'', 14), (CHR ''F'', 15)] c"

text \<open>The pieces of a string between the characters that satisfy \<open>P\<close>.\<close>

fun split_where :: "(char \<Rightarrow> bool) \<Rightarrow> string \<Rightarrow> string list" where
  "split_where P [] = [[]]"
| "split_where P (c # cs) =
     (if P c then [] # split_where P cs
      else (case split_where P cs of [] \<Rightarrow> [[c]] | g # gs \<Rightarrow> (c # g) # gs))"

fun join :: "string \<Rightarrow> string list \<Rightarrow> string" where
  "join sep [] = []"
| "join sep [x] = x"
| "join sep (x # y # ys) = x @ sep @ join sep (y # ys)"

text \<open>
  Modelled from the spec: \<^verbatim>\<open>SplitString\<close> is not among the sources; the specification says
  that the text is a comma-separated list of pairs.
\<close>

definition SplitString :: "string \<Rightarrow> char \<Rightarrow> string list" where
  "SplitString str delim = split_where (\<lambda>c. c = delim) str"

text \<open>
  Modelled from the spec: \<^verbatim>\<open>Common::StringToMacAddress\<close> is not among the sources; the
  specification says that the address is parsed from a colon- or hyphen-delimited
  hexadecimal representation. The result is \<open>None\<close> for any other string.
\<close>

definition StringToMacAddress :: "string \<Rightarrow> u8 list option" where
  "StringToMacAddress mac_string =
     (let groups = split_where (\<lambda>c. c = CHR '':'' \<or> c = CHR ''-'') mac_string in
      if length groups = sizeof_btaddr_t \<and>
         list_all (\<lambda>g. length g = 2 \<and> list_all (\<lambda>c. hex_value c \<noteq> None) g) groups
      then Some (map (\<lambda>g. of_nat (16 * the (hex_value (g ! 0)) + the (hex_value (g ! 1)))) groups)
      else None)"

text \<open>
  Modelled from the spec: \<^verbatim>\<open>Common::MacAddressToString\<close> is not among the sources; the
  specification describes the inverse of the parsing, and shows the bytes as two
  hexadecimal digits each, separated by colons.
\<close>

definition MacAddressToString :: "u8 list \<Rightarrow> string" where
  "MacAddressToString mac = join '':'' (map hex2 mac)"

text \<open>
  What the source leaves undetermined: the bytes of \<^verbatim>\<open>key\<close> before the loop writes them
  (the variable is not initialised), the bytes of \<^verbatim>\<open>address\<close> when the string is not an
  address (the variable is not initialised either, and the result of the parsing is not
  looked at), and the number that \<^verbatim>\<open>value\<close> holds after an extraction from characters that
  are not all hexadecimal digits.
\<close>

record indeterminate =
  uninit_key :: "nat \<Rightarrow> u8"
  malformed_address :: "string \<Rightarrow> nat \<Rightarrow> u8"
  other_extraction :: "string \<Rightarrow> int"

text \<open>\<^verbatim>\<open>std::stringstream(chunk) >> std::hex >> value\<close>, for a chunk of one or two characters.\<close>

definition hex_extract :: "indeterminate \<Rightarrow> string \<Rightarrow> int" where
  "hex_extract X chunk =
     (case those (map hex_value chunk) of
        None \<Rightarrow> other_extraction X chunk
      | Some ds \<Rightarrow> if ds = [] then other_extraction X chunk
                   else int (foldl (\<lambda>a d. 16 * a + d) 0 ds))"

text \<open>
  The inner loop of \<^verbatim>\<open>LoadLinkKeys\<close>: two characters of the string are taken at each turn,
  and \<^verbatim>\<open>key[pos++]\<close> is written without a check of \<open>pos\<close>.
\<close>

fun decode_key :: "indeterminate \<Rightarrow> string \<Rightarrow> nat \<Rightarrow> (nat \<Rightarrow> u8) \<Rightarrow> error + (nat \<Rightarrow> u8)" where
  "decode_key X [] pos key = Inr key"
| "decode_key X (c # cs) pos key =
     (if pos \<ge> sizeof_linkkey_t then Inl OutOfBounds
      else decode_key X (drop 1 cs) (Suc pos)
             (key(pos := of_int (hex_extract X (c # take 1 cs)))))"

text \<open>The loop over the pairs.\<close>

fun load_pairs :: "indeterminate \<Rightarrow> string list \<Rightarrow> link_keys \<Rightarrow> error + link_keys" where
  "load_pairs X [] keys = Inr keys"
| "load_pairs X (pair # pairs) keys =
     (if CHR ''='' \<notin> set pair then load_pairs X pairs keys
      else
        let address_string = takeWhile (\<lambda>c. c \<noteq> CHR ''='') pair;
            address = rev (case StringToMacAddress address_string of
                             Some bytes \<Rightarrow> bytes
                           | None \<Rightarrow> map (malformed_address X address_string) [0..<sizeof_btaddr_t]);
            key_string = tl (dropWhile (\<lambda>c. c \<noteq> CHR ''='') pair)
        in case decode_key X key_string 0 (uninit_key X) of
             Inl e \<Rightarrow> Inl e
           | Inr key \<Rightarrow> load_pairs X pairs (map_assign address (map key [0..<sizeof_linkkey_t]) keys))"

text \<open>\<open>entries\<close> is the configuration value, \<open>keys\<close> the map before the call.\<close>

definition LoadLinkKeys :: "indeterminate \<Rightarrow> string \<Rightarrow> link_keys \<Rightarrow> error + link_keys" where
  "LoadLinkKeys X entries keys =
     (if entries = [] then Inr keys else load_pairs X (SplitString entries CHR '','') keys)"

text \<open>The result is the new configuration value.\<close>

definition SaveLinkKeys :: "link_keys \<Rightarrow> string" where
  "SaveLinkKeys keys =
     (let config_string =
            concat (map (\<lambda>entry. MacAddressToString (rev (fst entry)) @ ''='' @
                                 concat (map hex2 (snd entry)) @ '','') keys)
      in if config_string \<noteq> [] then butlast config_string else config_string)"

section \<open>Saved states\<close>

datatype PointerWrap_Mode = MODE_READ | MODE_WRITE | MODE_MEASURE | MODE_VERIFY

text \<open>
  \<^verbatim>\<open>PointerWrap\<close> is not among the sources: the mode of \<open>p\<close> and the value that
  \<^verbatim>\<open>passthrough_bluetooth\<close> has after \<^verbatim>\<open>p.Do\<close> are parameters. The result is the state of the
  device, the mode of \<open>p\<close> after the call, and the messages.
\<close>

definition DoState :: "State \<Rightarrow> PointerWrap_Mode \<Rightarrow> bool \<Rightarrow> State \<times> PointerWrap_Mode \<times> effect list" where
  "DoState s mode passthrough_bluetooth =
     (let es = (if mode = MODE_READ
                then [PanicAlertT ''Attempted to load a state. Bluetooth will likely be broken now.'']
                else [])
      in if \<not> passthrough_bluetooth \<and> mode = MODE_READ
         then (s, MODE_VERIFY,
               es @ [DisplayMessage ''State needs Bluetooth passthrough to be disabled. Aborting load.''])
         else (s, mode, es))"

section \<open>Notions used in the statements\<close>

fun is_interrupt_request :: "event \<Rightarrow> bool" where
  "is_interrupt_request (Guest E (IOCTLV_USBV0_INTRMSG buffer)) = True"
| "is_interrupt_request ev = False"

text \<open>A control request of the guest that carries one of the two vendor opcodes.\<close>

fun is_vendor_command :: "event \<Rightarrow> bool" where
  "is_vendor_command (Guest E (IOCTLV_USBV0_CTRLMSG cmd)) =
     (swap16_Read_U16 (memory E) (ctrl_data_address cmd) = 0xFC4C \<or>
      swap16_Read_U16 (memory E) (ctrl_data_address cmd) = 0xFC4F)"
| "is_vendor_command ev = False"

text \<open>
  The handles to which an event of a run makes the device owe a reply: the handle of a
  control request that is not latched (the argument tells whether the adapter is the Wii's
  module), and the handle of a bulk or interrupt request.
\<close>

fun owed_replies :: "bool \<Rightarrow> event \<Rightarrow> u32 list" where
  "owed_replies wii (Guest E (IOCTLV_USBV0_CTRLMSG cmd)) =
     (let opcode = swap16_Read_U16 (memory E) (ctrl_data_address cmd) in
      if opcode = HCI_CMD_READ_BUFFER_SIZE \<or> (\<not> wii \<and> (opcode = 0xFC4C \<or> opcode = 0xFC4F))
      then [] else [ctrl_ios_request cmd])"
| "owed_replies wii (Guest E (IOCTLV_USBV0_BLKMSG buffer)) = [intr_ios_request buffer]"
| "owed_replies wii (Guest E (IOCTLV_USBV0_INTRMSG buffer)) = [intr_ios_request buffer]"
| "owed_replies wii ev = []"


text \<open>The text of a well-formed entry of the configuration value.\<close>

definition entry_text :: "btaddr_t \<Rightarrow> linkkey_t \<Rightarrow> string" where
  "entry_text a k = MacAddressToString (rev a) @ ''='' @ concat (map hex2 k)"

text \<open>
  An item of a configuration text: some characters without \<open>=\<close>, or a well-formed entry.
\<close>

fun item_text :: "string + btaddr_t \<times> linkkey_t \<Rightarrow> string" where
  "item_text (Inl junk) = junk"
| "item_text (Inr (a, k)) = entry_text a k"

fun item_ok :: "string + btaddr_t \<times> linkkey_t \<Rightarrow> bool" where
  "item_ok (Inl junk) = (CHR ''='' \<notin> set junk \<and> CHR '','' \<notin> set junk)"
| "item_ok (Inr (a, k)) = (length a = sizeof_btaddr_t \<and> length k = sizeof_linkkey_t)"

fun load_item :: "link_keys \<Rightarrow> string + btaddr_t \<times> linkkey_t \<Rightarrow> link_keys" where
  "load_item keys (Inl junk) = keys"
| "load_item keys (Inr (a, k)) = map_assign a k keys"

section \<open>Values for the examples\<close>

definition example_constants :: bt_constants where
  "example_constants =
     \<lparr>ACL_PKT_SIZE = 339, ACL_PKT_NUM = 10, SCO_PKT_SIZE = 64, SCO_PKT_NUM = 0, HCI_EVENT = 0x81\<rparr>"

text \<open>A device on an adapter that is not the Wii's module, with nothing pending.\<close>

definition example_state :: State where
  "example_state =
     \<lparr>s_link_keys = [], s_need_reset_keys = False, s_showed_failed_transfer = False,
      m_is_wii_bt_module = False, m_fake_read_buffer_size_reply = False,
      m_fake_vendor_command_reply = False, m_fake_vendor_command_reply_opcode = 0,
      m_sync_button_state = Unpressed, m_sync_button_held_timer = 0\<rparr>"

text \<open>A guest memory that holds the given bytes from address \<open>0x1000\<close> on, and zero elsewhere.\<close>

definition example_env :: "u8 list \<Rightarrow> env" where
  "example_env bs =
     \<lparr>memory = (\<lambda>x. if unat (x - 0x1000) < length bs then bs ! unat (x - 0x1000) else 0),
      polls = []\<rparr>"

definition example_ctrl :: "u32 \<Rightarrow> u16 \<Rightarrow> V0CtrlMessage" where
  "example_ctrl h n =
     \<lparr>ctrl_ios_request = h, ctrl_request_type = 0x20, ctrl_request = 0, ctrl_value = 0,
      ctrl_index = 0, ctrl_length = n, ctrl_data_address = 0x1000\<rparr>"

definition example_intr :: "u32 \<Rightarrow> V0IntrMessage" where
  "example_intr h =
     \<lparr>intr_ios_request = h, intr_data_address = 0x2000, intr_endpoint = 0x81, intr_length = 64\<rparr>"

definition example_world :: "State \<Rightarrow> world" where
  "example_world s = \<lparr>dev = s, in_flight = [], done_so_far = []\<rparr>"

definition example_indeterminate :: indeterminate where
  "example_indeterminate =
     \<lparr>uninit_key = (\<lambda>i. 0xCD), malformed_address = (\<lambda>s i. 0xEE), other_extraction = (\<lambda>s. 0)\<rparr>"

text \<open>\<open>n\<close> link keys, for \<open>n\<close> addresses in increasing order.\<close>

definition example_keys :: "nat \<Rightarrow> link_keys" where
  "example_keys n = map (\<lambda>i. ([1, 2, 3, 4, 5, of_nat i], replicate 16 0xAB)) [0..<n]"

section \<open>Lemmas: the effects of a call\<close>

lemma submitted_append: "submitted (xs @ ys) = submitted xs @ submitted ys"
  by (induction xs rule: submitted.induct) simp_all

lemma replied_append: "replied (xs @ ys) = replied xs @ replied ys"
  by (induction xs rule: replied.induct) simp_all

lemma wait_tries_quiet:
  "submitted (fst (wait_tries n opcode ps)) = [] \<and> replied (fst (wait_tries n opcode ps)) = []"
  by (induction n opcode ps rule: wait_tries.induct) (simp_all add: split_beta)

lemma wait_tries_polls:
  "\<exists>k \<le> n. fst (wait_tries n opcode ps) = replicate k libusb_interrupt_transfer"
proof (induction n opcode ps rule: wait_tries.induct)
  case (1 opcode ps)
  show ?case by simp
next
  case (2 n opcode)
  then obtain k where "k \<le> n" "fst (wait_tries n opcode []) = replicate k libusb_interrupt_transfer"
    by blast
  then have "Suc k \<le> Suc n \<and> fst (wait_tries (Suc n) opcode []) = replicate (Suc k) libusb_interrupt_transfer"
    by (simp add: split_beta)
  then show ?case by blast
next
  case (3 n opcode p ps)
  show ?case
  proof (cases "poll_ret p = 0 \<and> poll_event p = HCI_EVENT_COMMAND_COMPL \<and> poll_opcode p = opcode")
    case True
    then have "Suc 0 \<le> Suc n \<and> fst (wait_tries (Suc n) opcode (p # ps)) = replicate (Suc 0) libusb_interrupt_transfer"
      by simp
    then show ?thesis by blast
  next
    case False
    with 3 obtain k where "k \<le> n" "fst (wait_tries n opcode ps) = replicate k libusb_interrupt_transfer"
      by blast
    with False have "Suc k \<le> Suc n \<and> fst (wait_tries (Suc n) opcode (p # ps)) = replicate (Suc k) libusb_interrupt_transfer"
      by (auto simp: split_beta)
    then show ?thesis by blast
  qed
qed

lemma store_cmd_quiet:
  "SendHCIStoreLinkKeyCommand keys = Inr (sent, es) \<Longrightarrow> submitted es = [] \<and> replied es = []"
  by (auto simp: SendHCIStoreLinkKeyCommand_def Let_def split: if_splits sum.splits)

lemma delete_cmd_quiet:
  "submitted SendHCIDeleteLinkKeyCommand = [] \<and> replied SendHCIDeleteLinkKeyCommand = []"
  by (simp add: SendHCIDeleteLinkKeyCommand_def)

lemma IOCtlV_Inr:
  assumes "IOCtlV K E s r = Inr (s', es)"
  shows "\<exists>pre. s' = fst (IOCtlV_switch K (memory E)
                          (s\<lparr>s_need_reset_keys := m_is_wii_bt_module s \<and> s_need_reset_keys s\<rparr>) r) \<and>
               es = pre @ snd (IOCtlV_switch K (memory E)
                          (s\<lparr>s_need_reset_keys := m_is_wii_bt_module s \<and> s_need_reset_keys s\<rparr>) r) \<and>
               submitted pre = [] \<and> replied pre = []"
proof (cases "\<not> m_is_wii_bt_module s \<and> s_need_reset_keys s")
  case False
  then have eq: "s\<lparr>s_need_reset_keys := m_is_wii_bt_module s \<and> s_need_reset_keys s\<rparr> = s"
    by auto
  from False assms have "s' = fst (IOCtlV_switch K (memory E) s r) \<and>
      es = [] @ snd (IOCtlV_switch K (memory E) s r)"
    by (auto simp: IOCtlV_def split_beta)
  with eq show ?thesis by (metis submitted.simps(1) replied.simps(1))
next
  case True
  then have eq: "s\<lparr>s_need_reset_keys := m_is_wii_bt_module s \<and> s_need_reset_keys s\<rparr> =
                 s\<lparr>s_need_reset_keys := False\<rparr>"
    by simp
  let ?s1 = "s\<lparr>s_need_reset_keys := False\<rparr>"
  let ?w1 = "WaitForHCICommandComplete HCI_CMD_DELETE_STORED_LINK_KEY (polls E)"
  from True assms obtain sent store_cmd where
    sc: "SendHCIStoreLinkKeyCommand (s_link_keys s) = Inr (sent, store_cmd)"
    by (auto simp: IOCtlV_def split_beta Let_def split: sum.splits)
  let ?w2 = "if sent then fst (WaitForHCICommandComplete HCI_CMD_WRITE_STORED_LINK_KEY (snd ?w1)) else []"
  let ?pre = "SendHCIDeleteLinkKeyCommand @ fst ?w1 @ store_cmd @ ?w2"
  from True assms sc have "s' = fst (IOCtlV_switch K (memory E) ?s1 r) \<and>
      es = ?pre @ snd (IOCtlV_switch K (memory E) ?s1 r)"
    by (auto simp: IOCtlV_def split_beta Let_def split: if_splits)
  moreover have "submitted ?pre = [] \<and> replied ?pre = []"
    using store_cmd_quiet[OF sc] delete_cmd_quiet wait_tries_quiet
    by (simp add: submitted_append replied_append WaitForHCICommandComplete_def)
  ultimately show ?thesis unfolding eq by blast
qed



lemmas fake_defs = FakeSyncButtonPressedEvent_def FakeSyncButtonHeldEvent_def FakeSyncButtonEvent_def
  FakeReadBufferSizeReply_def FakeVendorCommandReply_def

lemma switch_wii:
  "m_is_wii_bt_module (fst (IOCtlV_switch K mem s r)) = m_is_wii_bt_module s"
  by (cases r) (simp_all add: Let_def fake_defs)

lemma switch_accounts:
  "mset (replied (snd (IOCtlV_switch K (memory E) s r))) +
   mset (map transfer_handle (submitted (snd (IOCtlV_switch K (memory E) s r)))) =
   mset (owed_replies (m_is_wii_bt_module s) (Guest E r))"
  by (cases r) (simp_all add: Let_def fake_defs)

lemma callback_replies:
  "replied (snd (callback K s t tr)) = [transfer_handle t]"
  by (cases t)
     (simp_all add: CommandCallback_def TransferCallback_def FillBuffer_def Let_def split_beta
        replied_append)

lemma callback_wii:
  "m_is_wii_bt_module (fst (callback K s t tr)) = m_is_wii_bt_module s"
  by (cases t) (simp_all add: CommandCallback_def TransferCallback_def Let_def split_beta)

lemma update_sync_frame:
  "m_is_wii_bt_module (UpdateSyncButtonState now s h) = m_is_wii_bt_module s \<and>
   m_fake_read_buffer_size_reply (UpdateSyncButtonState now s h) = m_fake_read_buffer_size_reply s \<and>
   m_fake_vendor_command_reply (UpdateSyncButtonState now s h) = m_fake_vendor_command_reply s \<and>
   m_fake_vendor_command_reply_opcode (UpdateSyncButtonState now s h) =
     m_fake_vendor_command_reply_opcode s"
  by (simp add: UpdateSyncButtonState_def Let_def)

lemma step_wii:
  assumes "step K w ev = Inr w'"
  shows "m_is_wii_bt_module (dev w') = m_is_wii_bt_module (dev w)"
proof (cases ev)
  case (Guest E r)
  with assms obtain s es where io: "IOCtlV K E (dev w) r = Inr (s, es)" and w': "dev w' = s"
    by (auto split: sum.splits)
  from IOCtlV_Inr[OF io] w' show ?thesis by (auto simp: switch_wii)
next
  case (Complete i tr)
  with assms show ?thesis
    by (auto simp: split_beta callback_wii split: if_splits)
next
  case (SyncSample now is_held)
  with assms have "dev w' = UpdateSyncButtonState now (dev w) is_held" by auto
  then show ?thesis by (simp add: update_sync_frame)
next
  case TriggerPressed
  with assms show ?thesis by (auto simp: TriggerSyncButtonPressedEvent_def)
next
  case TriggerHeld
  with assms show ?thesis by (auto simp: TriggerSyncButtonHeldEvent_def)
qed

lemma step_accounts:
  assumes "step K w ev = Inr w'"
  shows "mset (replied (done_so_far w')) + mset (map transfer_handle (in_flight w')) =
         mset (replied (done_so_far w)) + mset (map transfer_handle (in_flight w)) +
         mset (owed_replies (m_is_wii_bt_module (dev w)) ev)"
proof (cases ev)
  case (Guest E r)
  with assms obtain s es where io: "IOCtlV K E (dev w) r = Inr (s, es)"
    and w': "w' = \<lparr>dev = s, in_flight = in_flight w @ submitted es, done_so_far = done_so_far w @ es\<rparr>"
    by (auto split: sum.splits)
  let ?s = "(dev w)\<lparr>s_need_reset_keys := m_is_wii_bt_module (dev w) \<and> s_need_reset_keys (dev w)\<rparr>"
  from IOCtlV_Inr[OF io] obtain pre where
    es: "es = pre @ snd (IOCtlV_switch K (memory E) ?s r)" and
    pre: "submitted pre = []" "replied pre = []"
    by blast
  have "mset (replied es) + mset (map transfer_handle (submitted es)) =
        mset (owed_replies (m_is_wii_bt_module (dev w)) (Guest E r))"
    using switch_accounts[of K E ?s r] pre by (simp add: es replied_append submitted_append)
  then show ?thesis
    by (simp add: w' Guest replied_append ac_simps)
next
  case (Complete i tr)
  show ?thesis
  proof (cases "i < length (in_flight w)")
    case False
    with assms Complete show ?thesis by simp
  next
    case True
    let ?t = "in_flight w ! i"
    from True assms Complete have
      w': "w' = \<lparr>dev = fst (callback K (dev w) ?t tr),
                 in_flight = take i (in_flight w) @ drop (Suc i) (in_flight w),
                 done_so_far = done_so_far w @ snd (callback K (dev w) ?t tr)\<rparr>"
      by (auto simp: split_beta)
    have "mset (in_flight w) = mset (take i (in_flight w) @ drop (Suc i) (in_flight w)) + {#?t#}"
      using True by (subst id_take_nth_drop[OF True]) simp
    then have "mset (map transfer_handle (in_flight w)) =
        mset (map transfer_handle (take i (in_flight w) @ drop (Suc i) (in_flight w))) +
        {#transfer_handle ?t#}"
      by (metis image_mset_single image_mset_union mset_map)
    then show ?thesis
      by (simp add: w' Complete replied_append callback_replies)
  qed
next
  case (SyncSample now is_held)
  with assms show ?thesis by auto
next
  case TriggerPressed
  with assms show ?thesis by auto
next
  case TriggerHeld
  with assms show ?thesis by auto
qed

lemma callback_frame:
  "m_fake_read_buffer_size_reply (fst (callback K s t tr)) = m_fake_read_buffer_size_reply s \<and>
   m_fake_vendor_command_reply (fst (callback K s t tr)) = m_fake_vendor_command_reply s \<and>
   m_fake_vendor_command_reply_opcode (fst (callback K s t tr)) = m_fake_vendor_command_reply_opcode s"
  by (cases t) (simp_all add: CommandCallback_def TransferCallback_def Let_def split_beta)


lemma switch_keeps_vendor:
  assumes "\<not> is_interrupt_request (Guest E r)" "\<not> is_vendor_command (Guest E r)"
  shows "m_fake_vendor_command_reply (fst (IOCtlV_switch K (memory E) s r)) = m_fake_vendor_command_reply s \<and>
         m_fake_vendor_command_reply_opcode (fst (IOCtlV_switch K (memory E) s r)) =
           m_fake_vendor_command_reply_opcode s"
  using assms by (cases r) (simp_all add: Let_def)



lemma step_keeps_vendor:
  assumes "step K w ev = Inr w'" "\<not> is_interrupt_request ev" "\<not> is_vendor_command ev"
  shows "m_fake_vendor_command_reply (dev w') = m_fake_vendor_command_reply (dev w) \<and>
         m_fake_vendor_command_reply_opcode (dev w') = m_fake_vendor_command_reply_opcode (dev w)"
proof (cases ev)
  case (Guest E r)
  with assms obtain s es where io: "IOCtlV K E (dev w) r = Inr (s, es)" and w': "dev w' = s"
    by (auto split: sum.splits)
  from IOCtlV_Inr[OF io] w' switch_keeps_vendor[OF assms(2,3)[unfolded Guest]] show ?thesis
    by auto
next
  case (Complete i tr)
  with assms show ?thesis
    by (auto simp: split_beta callback_frame split: if_splits)
next
  case (SyncSample now is_held)
  with assms have "dev w' = UpdateSyncButtonState now (dev w) is_held" by auto
  then show ?thesis by (simp add: update_sync_frame)
next
  case TriggerPressed
  with assms show ?thesis by (auto simp: TriggerSyncButtonPressedEvent_def)
next
  case TriggerHeld
  with assms show ?thesis by (auto simp: TriggerSyncButtonHeldEvent_def)
qed

lemma run_keeps_vendor:
  assumes "run K w evs = Inr w'"
    "\<forall>ev \<in> set evs. \<not> is_interrupt_request ev \<and> \<not> is_vendor_command ev"
  shows "m_fake_vendor_command_reply (dev w') = m_fake_vendor_command_reply (dev w) \<and>
         m_fake_vendor_command_reply_opcode (dev w') = m_fake_vendor_command_reply_opcode (dev w)"
  using assms
proof (induction evs arbitrary: w)
  case Nil
  then show ?case by simp
next
  case (Cons ev evs)
  then obtain w1 where s1: "step K w ev = Inr w1" and r1: "run K w1 evs = Inr w'"
    by (auto split: sum.splits)
  from step_keeps_vendor[OF s1] Cons.IH[OF r1] Cons.prems(2) show ?case by simp
qed

lemma run_wii:
  assumes "run K w evs = Inr w'"
  shows "m_is_wii_bt_module (dev w') = m_is_wii_bt_module (dev w)"
  using assms
proof (induction evs arbitrary: w)
  case Nil
  then show ?case by simp
next
  case (Cons ev evs)
  then obtain w1 where s1: "step K w ev = Inr w1" and r1: "run K w1 evs = Inr w'"
    by (auto split: sum.splits)
  from step_wii[OF s1] Cons.IH[OF r1] show ?case by simp
qed

lemma IOCtlV_vendor:
  assumes "swap16_Read_U16 (memory E) (ctrl_data_address cmd) = 0xFC4C \<or>
           swap16_Read_U16 (memory E) (ctrl_data_address cmd) = 0xFC4F"
    and "\<not> m_is_wii_bt_module s"
    and "IOCtlV K E s (IOCTLV_USBV0_CTRLMSG cmd) = Inr (s1, es1)"
  shows "submitted es1 = [] \<and> replied es1 = [] \<and> m_fake_vendor_command_reply s1 \<and>
         m_fake_vendor_command_reply_opcode s1 = swap16_Read_U16 (memory E) (ctrl_data_address cmd) \<and>
         \<not> m_is_wii_bt_module s1"
  using IOCtlV_Inr[OF assms(3)] assms(1,2)
  by (auto simp: submitted_append replied_append HCI_CMD_READ_BUFFER_SIZE_def)

lemma IOCtlV_interrupt:
  assumes "IOCtlV K E s (IOCTLV_USBV0_INTRMSG b) = Inr (s3, es3)"
    and "m_sync_button_state s \<noteq> Pressed" "m_sync_button_state s \<noteq> LongPressed"
  shows "\<exists>pre. submitted pre = [] \<and> replied pre = [] \<and>
           m_sync_button_state s3 = m_sync_button_state s \<and>
           (if m_fake_read_buffer_size_reply s then
              es3 = pre @ FakeReadBufferSizeReply K b \<and> \<not> m_fake_read_buffer_size_reply s3 \<and>
              m_fake_vendor_command_reply s3 = m_fake_vendor_command_reply s
            else if m_fake_vendor_command_reply s then
              es3 = pre @ FakeVendorCommandReply s b \<and> \<not> m_fake_vendor_command_reply s3 \<and>
              \<not> m_fake_read_buffer_size_reply s3
            else es3 = pre @ [libusb_submit_transfer (data_transfer LIBUSB_TRANSFER_TYPE_INTERRUPT b)])"
proof -
  let ?s = "s\<lparr>s_need_reset_keys := m_is_wii_bt_module s \<and> s_need_reset_keys s\<rparr>"
  from IOCtlV_Inr[OF assms(1)] obtain pre where
    "s3 = fst (IOCtlV_switch K (memory E) ?s (IOCTLV_USBV0_INTRMSG b))"
    "es3 = pre @ snd (IOCtlV_switch K (memory E) ?s (IOCTLV_USBV0_INTRMSG b))"
    "submitted pre = []" "replied pre = []"
    by blast
  with assms(2,3) have "submitted pre = [] \<and> replied pre = [] \<and>
           m_sync_button_state s3 = m_sync_button_state s \<and>
           (if m_fake_read_buffer_size_reply s then
              es3 = pre @ FakeReadBufferSizeReply K b \<and> \<not> m_fake_read_buffer_size_reply s3 \<and>
              m_fake_vendor_command_reply s3 = m_fake_vendor_command_reply s
            else if m_fake_vendor_command_reply s then
              es3 = pre @ FakeVendorCommandReply s b \<and> \<not> m_fake_vendor_command_reply s3 \<and>
              \<not> m_fake_read_buffer_size_reply s3
            else es3 = pre @ [libusb_submit_transfer (data_transfer LIBUSB_TRANSFER_TYPE_INTERRUPT b)])"
    by (simp add: FakeVendorCommandReply_def)
  then show ?thesis by blast
qed


section \<open>Lemmas: the link keys in the configuration\<close>

subsection \<open>Hexadecimal digits\<close>

lemma hex_digit_table:
  "list_all (\<lambda>n. hex_value (hex_digit n) = Some n \<and> hex_digit n \<notin> set '',=:-'') [0..<16]"
  by code_simp

lemma hex_value_hex_digit: "n < 16 \<Longrightarrow> hex_value (hex_digit n) = Some n"
  using hex_digit_table by (simp add: list_all_iff)

lemma hex_digit_plain:
  "n < 16 \<Longrightarrow> hex_digit n \<noteq> CHR '','' \<and> hex_digit n \<noteq> CHR ''='' \<and>
     hex_digit n \<noteq> CHR '':'' \<and> hex_digit n \<noteq> CHR ''-''"
  using hex_digit_table by (simp add: list_all_iff)

lemma unat_u8_digits: "unat (b :: u8) div 16 < 16 \<and> unat b mod 16 < 16"
proof -
  have "unat b < 2 ^ LENGTH(8)" by (rule unsigned_less)
  then have "unat b < 256" by simp
  then show ?thesis by simp
qed

lemma hex2_plain:
  "c \<in> set (hex2 b) \<Longrightarrow> c \<noteq> CHR '','' \<and> c \<noteq> CHR ''='' \<and> c \<noteq> CHR '':'' \<and> c \<noteq> CHR ''-''"
  using hex_digit_plain[of "unat b div 16"] hex_digit_plain[of "unat b mod 16"] unat_u8_digits[of b]
  by (auto simp: hex2_def)

lemma hex_extract_hex2: "hex_extract X (hex2 b) = int (unat b)"
  using unat_u8_digits[of b]
  by (simp add: hex_extract_def hex2_def hex_value_hex_digit)

lemma of_int_hex_extract_hex2: "(of_int (hex_extract X (hex2 b)) :: u8) = b"
  by (simp add: hex_extract_hex2)

lemma hex2_decode:
  "(of_nat (16 * the (hex_value (hex2 b ! 0)) + the (hex_value (hex2 b ! 1))) :: u8) = b"
  using unat_u8_digits[of b]
  by (simp add: hex2_def hex_value_hex_digit)

lemma hex2_valid: "length (hex2 b) = 2 \<and> list_all (\<lambda>c. hex_value c \<noteq> None) (hex2 b)"
  using unat_u8_digits[of b]
  by (simp add: hex2_def hex_value_hex_digit)

subsection \<open>The key\<close>

lemma decode_key_hex:
  "pos + length k \<le> sizeof_linkkey_t \<Longrightarrow>
   decode_key X (concat (map hex2 k)) pos key =
     Inr (\<lambda>i. if pos \<le> i \<and> i < pos + length k then k ! (i - pos) else key i)"
proof (induction k arbitrary: pos key)
  case Nil
  then show ?case by (auto simp: fun_eq_iff)
next
  case (Cons b k)
  obtain d1 d2 where h: "hex2 b = [d1, d2]" by (simp add: hex2_def)
  have e: "of_int (hex_extract X [d1, d2]) = b"
    using of_int_hex_extract_hex2[of X b] h by simp
  from Cons.prems have p: "pos < sizeof_linkkey_t" "Suc pos + length k \<le> sizeof_linkkey_t"
    by simp_all
  have "decode_key X (concat (map hex2 (b # k))) pos key =
        decode_key X (concat (map hex2 k)) (Suc pos) (key(pos := b))"
    using p(1) by (simp add: h e)
  also have "\<dots> = Inr (\<lambda>i. if Suc pos \<le> i \<and> i < Suc pos + length k then k ! (i - Suc pos)
                            else (key(pos := b)) i)"
    by (rule Cons.IH[OF p(2)])
  also have "(\<lambda>i. if Suc pos \<le> i \<and> i < Suc pos + length k then k ! (i - Suc pos)
                   else (key(pos := b)) i) =
             (\<lambda>i. if pos \<le> i \<and> i < pos + length (b # k) then (b # k) ! (i - pos) else key i)"
    by (auto simp: fun_eq_iff nth_Cons')
  finally show ?case .
qed

lemma decode_key_whole:
  assumes "length k = sizeof_linkkey_t"
  shows "\<exists>key. decode_key X (concat (map hex2 k)) 0 (uninit_key X) = Inr key \<and>
               map key [0..<sizeof_linkkey_t] = k"
proof -
  have "decode_key X (concat (map hex2 k)) 0 (uninit_key X) =
        Inr (\<lambda>i. if 0 \<le> i \<and> i < 0 + length k then k ! (i - 0) else uninit_key X i)"
    by (rule decode_key_hex) (simp add: assms)
  moreover have "map (\<lambda>i. if 0 \<le> i \<and> i < 0 + length k then k ! (i - 0) else uninit_key X i)
                   [0..<sizeof_linkkey_t] = k"
    using assms by (simp add: list_eq_iff_nth_eq)
  ultimately show ?thesis by blast
qed

subsection \<open>Splitting\<close>

lemma split_where_not_Nil: "split_where P xs \<noteq> []"
  by (induction xs) (auto split: list.splits)

lemma split_where_none: "\<forall>c \<in> set xs. \<not> P c \<Longrightarrow> split_where P xs = [xs]"
  by (induction xs) auto

lemma split_where_sep:
  "\<forall>c \<in> set xs. \<not> P c \<Longrightarrow> P sep \<Longrightarrow> split_where P (xs @ sep # ys) = xs # split_where P ys"
  by (induction xs) auto

lemma split_where_join:
  assumes "ps \<noteq> []" "P sep" "\<forall>p \<in> set ps. \<forall>c \<in> set p. \<not> P c"
  shows "split_where P (join [sep] ps) = ps"
  using assms
proof (induction "[sep]" ps rule: join.induct)
  case 1
  then show ?case by simp
next
  case (2 x)
  then show ?case by (simp add: split_where_none)
next
  case (3 x y ys)
  then show ?case by (simp add: split_where_sep)
qed

subsection \<open>The address\<close>

lemma join_colon_plain:
  "c \<in> set (join '':'' (map hex2 m)) \<Longrightarrow> c \<noteq> CHR '','' \<and> c \<noteq> CHR ''=''"
proof (induction "'':''" "map hex2 m" arbitrary: m rule: join.induct)
  case 1
  then show ?case by simp
next
  case (2 x)
  then obtain b where "m = [b]" "x = hex2 b" by auto
  with 2 show ?case using hex2_plain[of c b] by simp
next
  case (3 x y ys)
  then obtain b m' where m: "m = b # m'" "x = hex2 b" "y # ys = map hex2 m'" by auto
  from 3(3) m have "c \<in> set (hex2 b) \<or> c = CHR '':'' \<or> c \<in> set (join '':'' (map hex2 m'))"
    by auto
  then show ?case
    using hex2_plain[of c b] 3(1)[OF m(3)] by auto
qed

lemma MacAddressToString_plain:
  "c \<in> set (MacAddressToString m) \<Longrightarrow> c \<noteq> CHR '','' \<and> c \<noteq> CHR ''=''"
  unfolding MacAddressToString_def by (rule join_colon_plain)

lemma StringToMacAddress_MacAddressToString:
  assumes "length m = sizeof_btaddr_t"
  shows "StringToMacAddress (MacAddressToString m) = Some m"
proof -
  have ne: "map hex2 m \<noteq> []" using assms by (auto simp: sizeof_btaddr_t_def)
  have "split_where (\<lambda>c. c = CHR '':'' \<or> c = CHR ''-'') (join [CHR '':''] (map hex2 m)) = map hex2 m"
    by (rule split_where_join[OF ne]) (use hex2_plain in auto)
  then have g: "split_where (\<lambda>c. c = CHR '':'' \<or> c = CHR ''-'') (MacAddressToString m) = map hex2 m"
    by (simp add: MacAddressToString_def)
  have v: "list_all (\<lambda>g. length g = 2 \<and> list_all (\<lambda>c. hex_value c \<noteq> None) g) (map hex2 m)"
    using hex2_valid by (simp add: list_all_iff)
  have "map (\<lambda>b. of_nat (16 * the (hex_value (hex2 b ! 0)) + the (hex_value (hex2 b ! 1)))) m = m"
    by (rule map_idI) (rule hex2_decode)
  then have d: "map (\<lambda>g. of_nat (16 * the (hex_value (g ! 0)) + the (hex_value (g ! 1)))) (map hex2 m) = m"
    by (simp only: map_map o_def)
  show ?thesis
    unfolding StringToMacAddress_def g Let_def using assms v d by simp
qed

subsection \<open>The entries\<close>

lemma key_text_plain: "c \<in> set (concat (map hex2 k)) \<Longrightarrow> c \<noteq> CHR '',''"
  using hex2_plain by auto

lemma entry_text_no_comma: "CHR '','' \<notin> set (entry_text a k)"
  using MacAddressToString_plain[of "CHR '',''" "rev a"] key_text_plain[of "CHR '',''" k]
  by (auto simp: entry_text_def)

lemma entry_text_parts:
  "CHR ''='' \<in> set (entry_text a k) \<and>
   takeWhile (\<lambda>c. c \<noteq> CHR ''='') (entry_text a k) = MacAddressToString (rev a) \<and>
   tl (dropWhile (\<lambda>c. c \<noteq> CHR ''='') (entry_text a k)) = concat (map hex2 k)"
proof -
  have n: "\<forall>c \<in> set (MacAddressToString (rev a)). c \<noteq> CHR ''=''"
    using MacAddressToString_plain by blast
  have "takeWhile (\<lambda>c. c \<noteq> CHR ''='') (MacAddressToString (rev a) @ CHR ''='' # concat (map hex2 k)) =
        MacAddressToString (rev a)"
    using n by (simp add: takeWhile_tail)
  moreover have "dropWhile (\<lambda>c. c \<noteq> CHR ''='') (MacAddressToString (rev a) @ CHR ''='' # concat (map hex2 k)) =
        CHR ''='' # concat (map hex2 k)"
    using n by (simp add: dropWhile_append3)
  ultimately show ?thesis by (simp add: entry_text_def)
qed

lemma load_pairs_skip:
  "CHR ''='' \<notin> set pair \<Longrightarrow> load_pairs X (pair # pairs) keys = load_pairs X pairs keys"
  by simp

lemma load_pairs_entry:
  assumes "length a = sizeof_btaddr_t" "length k = sizeof_linkkey_t"
  shows "load_pairs X (entry_text a k # pairs) keys = load_pairs X pairs (map_assign a k keys)"
proof -
  from decode_key_whole[OF assms(2)] obtain key where
    key: "decode_key X (concat (map hex2 k)) 0 (uninit_key X) = Inr key"
         "map key [0..<sizeof_linkkey_t] = k"
    by blast
  have addr: "StringToMacAddress (MacAddressToString (rev a)) = Some (rev a)"
    by (rule StringToMacAddress_MacAddressToString) (simp add: assms(1))
  show ?thesis
    using entry_text_parts[of a k] key addr by (simp add: Let_def)
qed

lemma load_pairs_items:
  "list_all item_ok items \<Longrightarrow>
   load_pairs X (map item_text items) keys = Inr (foldl load_item keys items)"
proof (induction items arbitrary: keys)
  case Nil
  then show ?case by simp
next
  case (Cons it items)
  show ?case
  proof (cases it)
    case (Inl junk)
    with Cons show ?thesis by simp
  next
    case (Inr e)
    obtain a k where e: "e = (a, k)" by (cases e)
    with Inr Cons.prems have "length a = sizeof_btaddr_t" "length k = sizeof_linkkey_t" by simp_all
    from load_pairs_entry[OF this] Cons Inr e show ?thesis by simp
  qed
qed

lemma item_text_no_comma: "item_ok it \<Longrightarrow> CHR '','' \<notin> set (item_text it)"
  by (cases it) (auto simp: entry_text_no_comma)

lemma join_empty:
  "join sep ps = [] \<Longrightarrow> sep \<noteq> [] \<Longrightarrow> ps = [] \<or> ps = [[]]"
  by (induction sep ps rule: join.induct) auto

lemma load_items_text:
  assumes "list_all item_ok items"
  shows "LoadLinkKeys X (join '','' (map item_text items)) keys = Inr (foldl load_item keys items)"
proof (cases "join '','' (map item_text items) = []")
  case True
  from join_empty[OF True] have "items = [] \<or> map item_text items = [[]]" by simp
  then have "foldl load_item keys items = keys"
  proof
    assume "items = []"
    then show ?thesis by simp
  next
    assume "map item_text items = [[]]"
    then obtain it where it: "items = [it]" "item_text it = []" by auto
    then have "\<exists>junk. it = Inl junk"
      by (cases it) (auto simp: entry_text_def)
    with it show ?thesis by auto
  qed
  with True show ?thesis by (simp add: LoadLinkKeys_def)
next
  case False
  then have ne: "map item_text items \<noteq> []" by auto
  have "split_where (\<lambda>c. c = CHR '','') (join [CHR '',''] (map item_text items)) = map item_text items"
    by (rule split_where_join[OF ne]) (use assms item_text_no_comma in \<open>auto simp: list_all_iff\<close>)
  with False load_pairs_items[OF assms] show ?thesis
    by (simp add: LoadLinkKeys_def SplitString_def)
qed

subsection \<open>The store\<close>

lemma set_map_assign: "set (map fst (map_assign a k es)) = insert a (set (map fst es))"
proof (induction es)
  case Nil
  show ?case by simp
next
  case (Cons e es)
  obtain a' k' where e: "e = (a', k')" by (cases e)
  have "map fst (map_assign a k (e # es)) =
        (if a < a' then a # a' # map fst es
         else if a = a' then a # map fst es
         else a' # map fst (map_assign a k es))"
    by (simp add: e)
  then have "set (map fst (map_assign a k (e # es))) =
        (if a < a' then insert a (insert a' (set (map fst es)))
         else if a = a' then insert a (set (map fst es))
         else insert a' (set (map fst (map_assign a k es))))"
    by (simp only: list.set if_distrib[of set] cong: if_cong)
  also have "\<dots> = insert a (set (map fst (e # es)))"
    unfolding Cons.IH by (auto simp: e)
  finally show ?case .
qed

lemma sorted_map_assign:
  "sorted_wrt (<) (map fst es) \<Longrightarrow> sorted_wrt (<) (map fst (map_assign a k es))"
proof (induction es)
  case Nil
  then show ?case by simp
next
  case (Cons e es)
  obtain a' k' where e: "e = (a', k')" by (cases e)
  show ?case
  proof (cases "a < a'")
    case True
    with Cons.prems e show ?thesis by (auto intro: less_trans)
  next
    case False
    show ?thesis
    proof (cases "a = a'")
      case True
      with Cons.prems e show ?thesis by auto
    next
      case ne: False
      with False have "a' < a" by simp
      moreover have "\<forall>x \<in> set (map fst (map_assign a k es)). a' < x"
        using Cons.prems e \<open>a' < a\<close> unfolding set_map_assign by auto
      ultimately show ?thesis
        using Cons e False ne by auto
    qed
  qed
qed

lemma wf_map_assign:
  assumes "wf_link_keys es" "length a = sizeof_btaddr_t" "length k = sizeof_linkkey_t"
  shows "wf_link_keys (map_assign a k es)"
proof -
  have "list_all (\<lambda>e. length (fst e) = sizeof_btaddr_t \<and> length (snd e) = sizeof_linkkey_t)
          (map_assign a k es)"
    using assms by (induction es) (auto simp: wf_link_keys_def)
  with sorted_map_assign[of es a k] assms(1) show ?thesis by (simp add: wf_link_keys_def)
qed

lemma wf_map_erase: "wf_link_keys es \<Longrightarrow> wf_link_keys (map_erase a es)"
  by (auto simp: wf_link_keys_def map_erase_def list_all_iff sorted_wrt_map intro: sorted_wrt_filter)

lemma reachable_wf: "reachable_link_keys es \<Longrightarrow> wf_link_keys es"
proof (induction rule: reachable_link_keys.induct)
  case empty
  show ?case by (simp add: wf_link_keys_def)
next
  case (upsert es a k)
  then show ?case by (simp add: wf_map_assign)
next
  case (delete_one es a)
  then show ?case by (simp add: wf_map_erase)
next
  case (delete_all es)
  show ?case by (simp add: wf_link_keys_def)
qed

lemma map_assign_last:
  "\<forall>x \<in> set acc. fst x < a \<Longrightarrow> map_assign a k acc = acc @ [(a, k)]"
  by (induction acc) auto

lemma foldl_load_sorted:
  "sorted_wrt (<) (map fst (acc @ es)) \<Longrightarrow> foldl load_item acc (map Inr es) = acc @ es"
proof (induction es arbitrary: acc)
  case Nil
  then show ?case by simp
next
  case (Cons e es)
  obtain a k where e: "e = (a, k)" by (cases e)
  from Cons.prems e have "\<forall>x \<in> set acc. fst x < a"
    by (auto simp: sorted_wrt_append)
  then have "map_assign a k acc = acc @ [(a, k)]" by (rule map_assign_last)
  moreover from Cons.prems e have "sorted_wrt (<) (map fst ((acc @ [(a, k)]) @ es))" by simp
  ultimately show ?case using Cons.IH[of "acc @ [(a, k)]"] e by simp
qed

subsection \<open>Saving\<close>

lemma butlast_concat_join:
  "es \<noteq> [] \<Longrightarrow> butlast (concat (map (\<lambda>e. f e @ '','') es)) = join '','' (map f es)"
proof (induction es)
  case Nil
  then show ?case by simp
next
  case (Cons e es)
  show ?case
  proof (cases es)
    case Nil
    then show ?thesis by simp
  next
    case (Cons e' es')
    with Cons.IH have "butlast (concat (map (\<lambda>e. f e @ '','') es)) = join '','' (map f es)" by simp
    moreover have "concat (map (\<lambda>e. f e @ '','') es) \<noteq> []" using Cons by simp
    ultimately show ?thesis using Cons by (simp add: butlast_append)
  qed
qed

lemma item_text_Inr: "item_text (Inr e) = entry_text (fst e) (snd e)"
  by (cases e) simp

lemma SaveLinkKeys_join:
  "SaveLinkKeys keys = join '','' (map item_text (map Inr keys))"
proof (cases keys)
  case Nil
  then show ?thesis by (simp add: SaveLinkKeys_def)
next
  case (Cons e es)
  then have ne: "keys \<noteq> []" by simp
  have m: "map item_text (map Inr keys) = map (\<lambda>e. entry_text (fst e) (snd e)) keys"
    by (simp add: item_text_Inr)
  have c: "(\<lambda>entry. MacAddressToString (rev (fst entry)) @ ''='' @
                     concat (map hex2 (snd entry)) @ '','') =
           (\<lambda>e. entry_text (fst e) (snd e) @ '','')"
    by (simp add: entry_text_def fun_eq_iff)
  have n: "concat (map (\<lambda>e. entry_text (fst e) (snd e) @ '','') keys) \<noteq> []"
    using Cons by simp
  have "SaveLinkKeys keys = butlast (concat (map (\<lambda>e. entry_text (fst e) (snd e) @ '','') keys))"
    unfolding SaveLinkKeys_def c Let_def using n by simp
  also have "\<dots> = join '','' (map (\<lambda>e. entry_text (fst e) (snd e)) keys)"
    by (rule butlast_concat_join[OF ne])
  finally show ?thesis by (simp only: m)
qed

section \<open>Lemmas: the write-stored-link-keys packet\<close>

lemma copy_to_app:
  "length pre = pos \<Longrightarrow> length mid = length src \<Longrightarrow>
   copy_to src pos (pre @ mid @ post) = Inr (pre @ src @ post)"
  by (simp add: copy_to_def)

lemma copy_entries_app:
  assumes "list_all (\<lambda>e. length (fst e) = sizeof_btaddr_t \<and> length (snd e) = sizeof_linkkey_t) es"
    and "length pre = pos" "length mid = 22 * length es"
  shows "copy_entries es pos (pre @ mid @ post) =
         Inr (pre @ concat (map (\<lambda>e. fst e @ snd e) es) @ post)"
  using assms
proof (induction es arbitrary: pos pre mid)
  case Nil
  then show ?case by simp
next
  case (Cons e es)
  let ?m1 = "take 6 mid" and ?m2 = "take 16 (drop 6 mid)" and ?m3 = "drop 22 mid"
  have le: "length (fst e) = 6" "length (snd e) = 16"
    using Cons.prems(1) by (simp_all add: sizeof_btaddr_t_def sizeof_linkkey_t_def)
  have "drop 6 mid = ?m2 @ drop 16 (drop 6 mid)" by (simp only: append_take_drop_id)
  moreover have "drop 16 (drop 6 mid) = ?m3" by simp
  ultimately have "drop 6 mid = ?m2 @ ?m3" by (simp only:)
  then have "?m1 @ drop 6 mid = ?m1 @ ?m2 @ ?m3" by (rule arg_cong)
  then have mid: "mid = ?m1 @ ?m2 @ ?m3" by simp
  have 1: "copy_to (fst e) pos (pre @ ?m1 @ (?m2 @ ?m3 @ post)) =
           Inr (pre @ fst e @ (?m2 @ ?m3 @ post))"
    by (rule copy_to_app) (simp_all add: Cons.prems(2,3) le)
  have 2: "copy_to (snd e) (pos + length (fst e)) ((pre @ fst e) @ ?m2 @ (?m3 @ post)) =
           Inr ((pre @ fst e) @ snd e @ (?m3 @ post))"
    by (rule copy_to_app) (simp_all add: Cons.prems(2,3) le)
  have 3: "copy_entries es (pos + length (fst e) + length (snd e)) ((pre @ fst e @ snd e) @ ?m3 @ post) =
           Inr ((pre @ fst e @ snd e) @ concat (map (\<lambda>e. fst e @ snd e) es) @ post)"
    by (rule Cons.IH) (use Cons.prems le in simp_all)
  have "copy_entries (e # es) pos (pre @ (?m1 @ ?m2 @ ?m3) @ post) =
        Inr (pre @ concat (map (\<lambda>e. fst e @ snd e) (e # es)) @ post)"
    using 1 2 3 by simp
  with mid show ?case by simp
qed

lemma store_cmd_packet:
  assumes "keys \<noteq> []" "wf_link_keys keys" "length keys \<le> 11"
  shows "SendHCIStoreLinkKeyCommand keys =
         Inr (True,
              [libusb_control_transfer
                 (le16 HCI_CMD_WRITE_STORED_LINK_KEY @
                  [of_nat (1 + 22 * length keys), of_nat (length keys)] @
                  concat (map (\<lambda>e. fst e @ snd e) keys))])"
proof -
  let ?n = "length keys"
  define payload_size :: u8 where "payload_size = of_nat (1 + 22 * ?n)"
  define count :: u8 where "count = of_nat ?n"
  let ?hdr = "le16 HCI_CMD_WRITE_STORED_LINK_KEY @ [payload_size]"
  have "unat count = ?n mod 2 ^ LENGTH(8)"
    unfolding count_def by (simp only: unat_of_nat)
  then have n: "unat count = ?n"
    using assms(3) by simp
  have "unat payload_size = (1 + 22 * ?n) mod 2 ^ LENGTH(8)"
    unfolding payload_size_def by (simp only: unat_of_nat)
  moreover have "1 + 22 * ?n < 256" using assms(3) by simp
  ultimately have sz: "unat payload_size = 1 + 22 * ?n"
    by simp
  have sizes: "list_all (\<lambda>e. length (fst e) = sizeof_btaddr_t \<and> length (snd e) = sizeof_linkkey_t) keys"
    using assms(2) by (simp add: wf_link_keys_def)
  have p: "replicate (sizeof_hci_cmd_hdr_t + unat payload_size) (0 :: u8) =
           [] @ replicate 3 0 @ (replicate 1 0 @ replicate (22 * ?n) 0)"
  proof -
    have "sizeof_hci_cmd_hdr_t + unat payload_size = 3 + (1 + 22 * ?n)"
      by (simp add: sz sizeof_hci_cmd_hdr_t_def)
    then show ?thesis
      by (simp only: replicate_add append_Nil)
  qed
  have 1: "copy_to ?hdr 0 ([] @ replicate 3 0 @ (replicate 1 0 @ replicate (22 * ?n) 0)) =
           Inr ([] @ ?hdr @ (replicate 1 0 @ replicate (22 * ?n) 0))"
    by (rule copy_to_app) (simp_all add: le16_def)
  have 2: "copy_to [count] sizeof_hci_cmd_hdr_t (?hdr @ replicate 1 0 @ replicate (22 * ?n) 0) =
           Inr (?hdr @ [count] @ replicate (22 * ?n) 0)"
    by (rule copy_to_app) (simp_all add: le16_def sizeof_hci_cmd_hdr_t_def)
  have 3: "copy_entries keys (sizeof_hci_cmd_hdr_t + sizeof_hci_write_stored_link_key_cp)
             ((?hdr @ [count]) @ replicate (22 * ?n) 0 @ []) =
           Inr ((?hdr @ [count]) @ concat (map (\<lambda>e. fst e @ snd e) keys) @ [])"
    by (rule copy_entries_app[OF sizes])
       (simp_all add: le16_def sizeof_hci_cmd_hdr_t_def sizeof_hci_write_stored_link_key_cp_def)
  have size_eq: "(of_nat (sizeof_hci_write_stored_link_key_cp +
                      (sizeof_btaddr_t + sizeof_linkkey_t) * unat (of_nat ?n :: u8)) :: u8) =
                 payload_size"
    using n unfolding count_def payload_size_def
    by (simp only: sizeof_hci_write_stored_link_key_cp_def sizeof_btaddr_t_def sizeof_linkkey_t_def)
       simp
  have "SendHCIStoreLinkKeyCommand keys =
        (case copy_to ?hdr 0 (replicate (sizeof_hci_cmd_hdr_t + unat payload_size) 0) of
           Inl e \<Rightarrow> Inl e
         | Inr packet1 \<Rightarrow>
             (case copy_to [of_nat ?n] sizeof_hci_cmd_hdr_t packet1 of
                Inl e \<Rightarrow> Inl e
              | Inr packet2 \<Rightarrow>
                  (case copy_entries keys
                          (sizeof_hci_cmd_hdr_t + sizeof_hci_write_stored_link_key_cp) packet2 of
                     Inl e \<Rightarrow> Inl e
                   | Inr packet3 \<Rightarrow> Inr (True, [libusb_control_transfer packet3]))))"
    using assms(1) by (simp only: SendHCIStoreLinkKeyCommand_def Let_def size_eq if_False)
  then have "SendHCIStoreLinkKeyCommand keys =
        (case copy_to ?hdr 0 (replicate (sizeof_hci_cmd_hdr_t + unat payload_size) 0) of
           Inl e \<Rightarrow> Inl e
         | Inr packet1 \<Rightarrow>
             (case copy_to [count] sizeof_hci_cmd_hdr_t packet1 of
                Inl e \<Rightarrow> Inl e
              | Inr packet2 \<Rightarrow>
                  (case copy_entries keys
                          (sizeof_hci_cmd_hdr_t + sizeof_hci_write_stored_link_key_cp) packet2 of
                     Inl e \<Rightarrow> Inl e
                   | Inr packet3 \<Rightarrow> Inr (True, [libusb_control_transfer packet3]))))"
    by (simp only: count_def)
  then have "SendHCIStoreLinkKeyCommand keys =
        Inr (True, [libusb_control_transfer (?hdr @ [count] @ concat (map (\<lambda>e. fst e @ snd e) keys))])"
    using 1 2 3 by (simp add: p)
  then show ?thesis
    unfolding payload_size_def count_def by simp
qed

section \<open>The claims\<close>

subsection \<open>C1: one reply for each request\<close>

text \<open>
  Claim C1, as amended. In every run of the device that does not run into undefined
  behaviour, the replies made so far together with the transfers in flight are, counted with
  multiplicity, the handles that the device owes a reply: one for each control request that
  was forwarded, one for each bulk request and one for each interrupt request. So each such
  request is answered once when the transport completes its transfer, or was answered once
  at once by a faked event, and never twice; a control request that is latched
  (read-buffer-size, or a vendor command on an adapter that is not the Wii's module) gets
  no reply of its own.
\<close>

theorem one_reply_per_unlatched_request:
  assumes "run K w evs = Inr w'"
  shows "mset (replied (done_so_far w')) + mset (map transfer_handle (in_flight w')) =
         mset (replied (done_so_far w)) + mset (map transfer_handle (in_flight w)) +
         mset (concat (map (owed_replies (m_is_wii_bt_module (dev w))) evs))"
  using assms
proof (induction evs arbitrary: w)
  case Nil
  then show ?case by simp
next
  case (Cons ev evs)
  then obtain w1 where s1: "step K w ev = Inr w1" and r1: "run K w1 evs = Inr w'"
    by (auto split: sum.splits)
  from Cons.IH[OF r1] step_accounts[OF s1] step_wii[OF s1]
  show ?case by (simp add: ac_simps)
qed

theorem one_reply_per_unlatched_request_witness:
  "let w = \<lparr>dev = example_state\<lparr>m_fake_read_buffer_size_reply := True\<rparr>,
             in_flight = [data_transfer LIBUSB_TRANSFER_TYPE_INTERRUPT (example_intr 0x200)],
             done_so_far =
               [libusb_submit_transfer
                  (control_transfer (example_ctrl 0x100 3) [0x20, 0, 0, 0, 0, 0, 3, 0, 0x03, 0x0C, 0]),
                libusb_submit_transfer
                  (data_transfer LIBUSB_TRANSFER_TYPE_INTERRUPT (example_intr 0x200)),
                CopyToEmu 0x1000 (Bytes [0, 0, 0]),
                EnqueueReply 0x100 3]\<rparr>
   in run example_constants (example_world example_state)
        [Guest (example_env [0x03, 0x0C, 0x00]) (IOCTLV_USBV0_CTRLMSG (example_ctrl 0x100 3)),
         Guest (example_env []) (IOCTLV_USBV0_INTRMSG (example_intr 0x200)),
         Complete 0 \<lparr>tr_status = LIBUSB_TRANSFER_COMPLETED, tr_actual_length = 3,
                     tr_data = (\<lambda>i. 0)\<rparr>,
         Guest (example_env [0x05, 0x10, 0x00]) (IOCTLV_USBV0_CTRLMSG (example_ctrl 0x101 3))] =
        Inr w \<and>
      mset (replied (done_so_far w)) + mset (map transfer_handle (in_flight w)) =
        mset [0x100, 0x200]"
  (is "let w = ?w in ?run = Inr w \<and> _")
proof -
  have h: "?run = Inr ?w" by code_simp
  have "mset (replied (done_so_far ?w)) + mset (map transfer_handle (in_flight ?w)) =
        mset [0x100, 0x200]"
    using one_reply_per_unlatched_request[OF h]
    by (simp add: example_world_def example_state_def example_env_def example_ctrl_def
          example_intr_def swap16_Read_U16_def of_le16_def HCI_CMD_READ_BUFFER_SIZE_def)
  with h show ?thesis by (simp add: Let_def)
qed

text \<open>
  Claim C1 as stated fails. A read-buffer-size control request with handle \<open>0x100\<close> is
  followed by an interrupt request with handle \<open>0x200\<close>: the only reply made is to \<open>0x200\<close>,
  and no transfer is in flight, so nothing is left that could answer \<open>0x100\<close>.
\<close>

theorem latched_control_request_is_never_answered:
  "map_sum id (\<lambda>w. (replied (done_so_far w), map transfer_handle (in_flight w)))
     (run example_constants (example_world example_state)
        [Guest (example_env [0x05, 0x10, 0x00]) (IOCTLV_USBV0_CTRLMSG (example_ctrl 0x100 3)),
         Guest (example_env []) (IOCTLV_USBV0_INTRMSG (example_intr 0x200))]) =
   Inr ([0x200], [])"
  by code_simp

subsection \<open>C2: the read-buffer-size command\<close>



text \<open>
  An example with link keys to restore, on an adapter that is not the Wii's module: the call
  sends the device's own two commands, with one read after each, and nothing of the
  read-buffer-size command.
\<close>

lemma read_buffer_size_after_reset_sends_only_the_keys:
  "IOCtlV example_constants
     ((example_env [0x05, 0x10, 0x00])
        \<lparr>polls := [\<lparr>poll_ret = 0, poll_event = 0x0E, poll_opcode = 0x0C12\<rparr>,
                   \<lparr>poll_ret = 0, poll_event = 0x0E, poll_opcode = 0x0C11\<rparr>]\<rparr>)
     (example_state\<lparr>s_need_reset_keys := True, s_link_keys := example_keys 1\<rparr>)
     (IOCTLV_USBV0_CTRLMSG (example_ctrl 0x100 3)) =
   Inr (example_state\<lparr>s_link_keys := example_keys 1, m_fake_read_buffer_size_reply := True\<rparr>,
        [libusb_control_transfer [0x12, 0x0C, 7, 0, 0, 0, 0, 0, 0, 1],
         libusb_interrupt_transfer,
         libusb_control_transfer
           ([0x11, 0x0C, 23, 1, 1, 2, 3, 4, 5, 0] @ replicate 16 0xAB),
         libusb_interrupt_transfer])"
  by code_simp


subsection \<open>C4: the vendor commands\<close>



text \<open>
  An example with link keys to restore, on an adapter that is not the Wii's module: the call
  sends the device's own two commands, with one read after each, and nothing of the vendor
  command.
\<close>

lemma vendor_command_after_reset_sends_only_the_keys:
  "IOCtlV example_constants
     ((example_env [0x4F, 0xFC, 0x00])
        \<lparr>polls := [\<lparr>poll_ret = 0, poll_event = 0x0E, poll_opcode = 0x0C12\<rparr>,
                   \<lparr>poll_ret = 0, poll_event = 0x0E, poll_opcode = 0x0C11\<rparr>]\<rparr>)
     (example_state\<lparr>s_need_reset_keys := True, s_link_keys := example_keys 1\<rparr>)
     (IOCTLV_USBV0_CTRLMSG (example_ctrl 0x100 3)) =
   Inr (example_state\<lparr>s_link_keys := example_keys 1, m_fake_vendor_command_reply := True,
                      m_fake_vendor_command_reply_opcode := 0xFC4F\<rparr>,
        [libusb_control_transfer [0x12, 0x0C, 7, 0, 0, 0, 0, 0, 0, 1],
         libusb_interrupt_transfer,
         libusb_control_transfer
           ([0x11, 0x0C, 23, 1, 1, 2, 3, 4, 5, 0] @ replicate 16 0xAB),
         libusb_interrupt_transfer])"
  by code_simp


subsection \<open>C10: two vendor commands before an interrupt request\<close>

text \<open>
  Claim C10, as amended. On an adapter that is not the Wii's module, let two vendor commands
  be latched with no interrupt request after the first, and no interrupt request and no
  further vendor command after the second. Then the next interrupt request, if it finds the
  sync button neither pressed nor long-pressed and the read-buffer-size latch clear, is
  answered with one command-complete event, whose opcode is the one of the second command,
  and the latch is cleared: an interrupt request that comes right after it is submitted to
  the transport, so the reply to the first command is lost.
\<close>

theorem second_vendor_command_wins:
  assumes "\<not> m_is_wii_bt_module s"
    and "op1 = 0xFC4C \<or> op1 = 0xFC4F"
    and "swap16_Read_U16 (memory E1) (ctrl_data_address cmd1) = op1"
    and "op2 = 0xFC4C \<or> op2 = 0xFC4F"
    and "swap16_Read_U16 (memory E2) (ctrl_data_address cmd2) = op2"
    and "IOCtlV K E1 s (IOCTLV_USBV0_CTRLMSG cmd1) = Inr (s1, es1)"
    and "run K \<lparr>dev = s1, in_flight = fl1, done_so_far = tr1\<rparr> evs1 = Inr w1"
    and "\<forall>ev \<in> set evs1. \<not> is_interrupt_request ev"
    and "IOCtlV K E2 (dev w1) (IOCTLV_USBV0_CTRLMSG cmd2) = Inr (s2, es2)"
    and "run K \<lparr>dev = s2, in_flight = fl2, done_so_far = tr2\<rparr> evs2 = Inr w2"
    and "\<forall>ev \<in> set evs2. \<not> is_interrupt_request ev \<and> \<not> is_vendor_command ev"
    and "m_sync_button_state (dev w2) \<noteq> Pressed"
    and "m_sync_button_state (dev w2) \<noteq> LongPressed"
    and "\<not> m_fake_read_buffer_size_reply (dev w2)"
    and "IOCtlV K E3 (dev w2) (IOCTLV_USBV0_INTRMSG b) = Inr (s3, es3)"
    and "IOCtlV K E4 s3 (IOCTLV_USBV0_INTRMSG b') = Inr (s4, es4)"
  shows "submitted es1 = [] \<and> replied es1 = [] \<and> submitted es2 = [] \<and> replied es2 = [] \<and>
         (\<exists>pre. submitted pre = [] \<and> replied pre = [] \<and>
            es3 = pre @
              [CopyToEmu (intr_data_address b)
                 (EventCommand \<lparr>EventType = HCI_EVENT_COMMAND_COMPL, PayloadLength = 3,
                                PacketIndicator = 1, Opcode = op2\<rparr>),
               EnqueueReply (intr_ios_request b) 5]) \<and>
         \<not> m_fake_vendor_command_reply s3 \<and>
         (\<exists>pre. submitted pre = [] \<and> replied pre = [] \<and>
            es4 = pre @ [libusb_submit_transfer (data_transfer LIBUSB_TRANSFER_TYPE_INTERRUPT b')])"
proof -
  have v1: "swap16_Read_U16 (memory E1) (ctrl_data_address cmd1) = 0xFC4C \<or>
            swap16_Read_U16 (memory E1) (ctrl_data_address cmd1) = 0xFC4F"
    using assms(2,3) by simp
  have v2: "swap16_Read_U16 (memory E2) (ctrl_data_address cmd2) = 0xFC4C \<or>
            swap16_Read_U16 (memory E2) (ctrl_data_address cmd2) = 0xFC4F"
    using assms(4,5) by simp
  note c1 = IOCtlV_vendor[OF v1 assms(1,6)]
  have "\<not> m_is_wii_bt_module (dev w1)"
    using run_wii[OF assms(7)] c1 by simp
  note c2 = IOCtlV_vendor[OF v2 this assms(9)]
  have l: "m_fake_vendor_command_reply (dev w2) \<and>
           m_fake_vendor_command_reply_opcode (dev w2) = op2"
    using run_keeps_vendor[OF assms(10,11)] c2 assms(5) by simp
  with IOCtlV_interrupt[OF assms(15,12,13)] assms(14) obtain pre where
    pre: "submitted pre = []" "replied pre = []" "es3 = pre @ FakeVendorCommandReply (dev w2) b"
    and s3: "\<not> m_fake_vendor_command_reply s3" "\<not> m_fake_read_buffer_size_reply s3"
      "m_sync_button_state s3 = m_sync_button_state (dev w2)"
    by auto
  from pre l have third: "submitted pre = [] \<and> replied pre = [] \<and>
            es3 = pre @
              [CopyToEmu (intr_data_address b)
                 (EventCommand \<lparr>EventType = HCI_EVENT_COMMAND_COMPL, PayloadLength = 3,
                                PacketIndicator = 1, Opcode = op2\<rparr>),
               EnqueueReply (intr_ios_request b) 5]"
    by (simp add: FakeVendorCommandReply_def sizeof_SHCIEventCommand_def)
  have "m_sync_button_state s3 \<noteq> Pressed" "m_sync_button_state s3 \<noteq> LongPressed"
    using s3(3) assms(12,13) by simp_all
  from IOCtlV_interrupt[OF assms(16) this] s3(1,2)
  have fourth: "\<exists>pre. submitted pre = [] \<and> replied pre = [] \<and>
            es4 = pre @ [libusb_submit_transfer (data_transfer LIBUSB_TRANSFER_TYPE_INTERRUPT b')]"
    by auto
  from c1 c2 third s3(1) fourth show ?thesis by blast
qed

text \<open>
  The witness latches \<open>0xFC4C\<close> and then \<open>0xFC4F\<close>, samples the sync button as not held, and
  sends two interrupt requests: the first is answered for \<open>0xFC4F\<close>, the second is
  submitted.
\<close>

theorem second_vendor_command_wins_witness:
  "IOCtlV example_constants (example_env [0x4C, 0xFC, 0x00]) example_state
     (IOCTLV_USBV0_CTRLMSG (example_ctrl 0x100 3)) =
     Inr (example_state\<lparr>m_fake_vendor_command_reply := True,
                        m_fake_vendor_command_reply_opcode := 0xFC4C\<rparr>, []) \<and>
   IOCtlV example_constants (example_env [0x4F, 0xFC, 0x00])
     (example_state\<lparr>m_fake_vendor_command_reply := True,
                    m_fake_vendor_command_reply_opcode := 0xFC4C\<rparr>)
     (IOCTLV_USBV0_CTRLMSG (example_ctrl 0x101 3)) =
     Inr (example_state\<lparr>m_fake_vendor_command_reply := True,
                        m_fake_vendor_command_reply_opcode := 0xFC4F\<rparr>, []) \<and>
   run example_constants
     \<lparr>dev = example_state\<lparr>m_fake_vendor_command_reply := True,
                          m_fake_vendor_command_reply_opcode := 0xFC4F\<rparr>,
      in_flight = [], done_so_far = []\<rparr> [SyncSample 3 False] =
     Inr \<lparr>dev = example_state\<lparr>m_fake_vendor_command_reply := True,
                               m_fake_vendor_command_reply_opcode := 0xFC4F\<rparr>,
          in_flight = [], done_so_far = []\<rparr> \<and>
   IOCtlV example_constants (example_env [])
     (example_state\<lparr>m_fake_vendor_command_reply := True,
                    m_fake_vendor_command_reply_opcode := 0xFC4F\<rparr>)
     (IOCTLV_USBV0_INTRMSG (example_intr 0x200)) =
     Inr (example_state\<lparr>m_fake_vendor_command_reply_opcode := 0xFC4F\<rparr>,
          [CopyToEmu 0x2000
             (EventCommand \<lparr>EventType = 0x0E, PayloadLength = 3, PacketIndicator = 1,
                            Opcode = 0xFC4F\<rparr>),
           EnqueueReply 0x200 5]) \<and>
   IOCtlV example_constants (example_env [])
     (example_state\<lparr>m_fake_vendor_command_reply_opcode := 0xFC4F\<rparr>)
     (IOCTLV_USBV0_INTRMSG (example_intr 0x201)) =
     Inr (example_state\<lparr>m_fake_vendor_command_reply_opcode := 0xFC4F\<rparr>,
          [libusb_submit_transfer (data_transfer LIBUSB_TRANSFER_TYPE_INTERRUPT (example_intr 0x201))]) \<and>
   \<not> m_fake_vendor_command_reply (example_state\<lparr>m_fake_vendor_command_reply_opcode := 0xFC4F\<rparr>)"
  (is "?A1 \<and> ?A2 \<and> ?A3 \<and> ?A4 \<and> ?A5 \<and> ?C")
proof -
  let ?s1 = "example_state\<lparr>m_fake_vendor_command_reply := True,
                          m_fake_vendor_command_reply_opcode := 0xFC4C\<rparr>"
  let ?s2 = "example_state\<lparr>m_fake_vendor_command_reply := True,
                          m_fake_vendor_command_reply_opcode := 0xFC4F\<rparr>"
  let ?w1 = "\<lparr>dev = ?s1, in_flight = [], done_so_far = []\<rparr>"
  let ?w2 = "\<lparr>dev = ?s2, in_flight = [], done_so_far = []\<rparr>"
  have a1: ?A1 by code_simp
  have a2: ?A2 by code_simp
  have a2': "IOCtlV example_constants (example_env [0x4F, 0xFC, 0x00]) (dev ?w1)
     (IOCTLV_USBV0_CTRLMSG (example_ctrl 0x101 3)) = Inr (?s2, [])"
    using a2 by simp
  have a3: ?A3 by code_simp
  have a4: ?A4 by code_simp
  have a4': "IOCtlV example_constants (example_env []) (dev ?w2)
     (IOCTLV_USBV0_INTRMSG (example_intr 0x200)) =
     Inr (example_state\<lparr>m_fake_vendor_command_reply_opcode := 0xFC4F\<rparr>,
          [CopyToEmu 0x2000
             (EventCommand \<lparr>EventType = 0x0E, PayloadLength = 3, PacketIndicator = 1,
                            Opcode = 0xFC4F\<rparr>),
           EnqueueReply 0x200 5])"
    using a4 by simp
  have a5: ?A5 by code_simp
  have nw: "\<not> m_is_wii_bt_module example_state" by (simp add: example_state_def)
  have o1: "(0xFC4C :: u16) = 0xFC4C \<or> (0xFC4C :: u16) = 0xFC4F" by simp
  have o2: "(0xFC4F :: u16) = 0xFC4C \<or> (0xFC4F :: u16) = 0xFC4F" by simp
  have m1: "swap16_Read_U16 (memory (example_env [0x4C, 0xFC, 0x00]))
              (ctrl_data_address (example_ctrl 0x100 3)) = 0xFC4C"
    by code_simp
  have m2: "swap16_Read_U16 (memory (example_env [0x4F, 0xFC, 0x00]))
              (ctrl_data_address (example_ctrl 0x101 3)) = 0xFC4F"
    by code_simp
  have r1: "run example_constants ?w1 [] = Inr ?w1" by simp
  have q1: "\<forall>ev \<in> set ([] :: event list). \<not> is_interrupt_request ev" by simp
  have q2: "\<forall>ev \<in> set [SyncSample 3 False]. \<not> is_interrupt_request ev \<and> \<not> is_vendor_command ev"
    by simp
  have b: "m_sync_button_state (dev ?w2) \<noteq> Pressed" "m_sync_button_state (dev ?w2) \<noteq> LongPressed"
    "\<not> m_fake_read_buffer_size_reply (dev ?w2)"
    by (simp_all add: example_state_def)
  have ?C
    using second_vendor_command_wins[OF nw o1 m1 o2 m2 a1 r1 q1 a2' a3 q2 b a4' a5] by blast
  with a1 a2 a3 a4 a5 show ?thesis by blast
qed

text \<open>
  Claim C10 as stated fails. With the sync button long-pressed, the interrupt request that
  follows the two vendor commands is answered with the vendor event of the button: it gets
  no command-complete event, and the latch stays set.
\<close>

theorem sync_button_event_comes_before_vendor_reply:
  "run example_constants (example_world (example_state\<lparr>m_sync_button_state := LongPressed\<rparr>))
     [Guest (example_env [0x4C, 0xFC, 0x00]) (IOCTLV_USBV0_CTRLMSG (example_ctrl 0x100 3)),
      Guest (example_env [0x4F, 0xFC, 0x00]) (IOCTLV_USBV0_CTRLMSG (example_ctrl 0x101 3)),
      Guest (example_env []) (IOCTLV_USBV0_INTRMSG (example_intr 0x200))] =
   Inr \<lparr>dev = example_state\<lparr>m_fake_vendor_command_reply := True,
                             m_fake_vendor_command_reply_opcode := 0xFC4F,
                             m_sync_button_state := Ignored\<rparr>,
        in_flight = [],
        done_so_far =
          [DisplayMessage ''Reset saved Wii Remote pairings'',
           CopyToEmu 0x2000 (EventHdr \<lparr>hdr_event = 0xFF, hdr_length = 1\<rparr>),
           CopyToEmu 0x2002 (Bytes [0x09]),
           EnqueueReply 0x200 3]\<rparr>"
  by code_simp

subsection \<open>C7: the sync button\<close>

text \<open>
  Claim C7. A sample of the button moves the state as the claim says: from \<open>Unpressed\<close> a
  held sample leads to \<open>Held\<close> and starts the timer; from \<open>Held\<close> a sample that is not held
  leads to \<open>Pressed\<close>, and a held sample leads to \<open>LongPressed\<close> when more than the threshold
  has elapsed since the timer was started, and stays in \<open>Held\<close> otherwise; \<open>Ignored\<close> leads to
  \<open>Unpressed\<close> on a sample that is not held and stays otherwise; no sample changes
  \<open>Pressed\<close> or \<open>LongPressed\<close>. An interrupt request consumes \<open>Pressed\<close> and \<open>LongPressed\<close>:
  it is answered with the vendor event \<open>0x08\<close> or \<open>0x09\<close>, and the state becomes \<open>Ignored\<close>;
  in the other states it leaves the state as it is.
\<close>

theorem sync_button_state_machine:
  "m_sync_button_state (UpdateSyncButtonState now s is_held) =
     (case m_sync_button_state s of
        Unpressed \<Rightarrow> if is_held then Held else Unpressed
      | Held \<Rightarrow> if \<not> is_held then Pressed
                else if SYNC_BUTTON_HOLD_MS_TO_RESET < now - m_sync_button_held_timer s
                then LongPressed else Held
      | Pressed \<Rightarrow> Pressed
      | LongPressed \<Rightarrow> LongPressed
      | Ignored \<Rightarrow> if is_held then Ignored else Unpressed) \<and>
   m_sync_button_held_timer (UpdateSyncButtonState now s is_held) =
     (if m_sync_button_state s = Unpressed \<and> is_held then now else m_sync_button_held_timer s) \<and>
   (IOCtlV K E s (IOCTLV_USBV0_INTRMSG b) = Inr (s1, es) \<longrightarrow>
      m_sync_button_state s1 =
        (if m_sync_button_state s = Pressed \<or> m_sync_button_state s = LongPressed
         then Ignored else m_sync_button_state s) \<and>
      (m_sync_button_state s = Pressed \<or> m_sync_button_state s = LongPressed \<longrightarrow>
         (\<exists>pre. submitted pre = [] \<and> replied pre = [] \<and>
            es = pre @
              [DisplayMessage (if m_sync_button_state s = Pressed then ''Scanning for Wii Remotes''
                               else ''Reset saved Wii Remote pairings''),
               CopyToEmu (intr_data_address b)
                 (EventHdr \<lparr>hdr_event = HCI_EVENT_VENDOR, hdr_length = 1\<rparr>),
               CopyToEmu (intr_data_address b + 2)
                 (Bytes [if m_sync_button_state s = Pressed then 0x08 else 0x09]),
               EnqueueReply (intr_ios_request b) 3])))"
proof -
  have sample: "m_sync_button_state (UpdateSyncButtonState now s is_held) =
     (case m_sync_button_state s of
        Unpressed \<Rightarrow> if is_held then Held else Unpressed
      | Held \<Rightarrow> if \<not> is_held then Pressed
                else if SYNC_BUTTON_HOLD_MS_TO_RESET < now - m_sync_button_held_timer s
                then LongPressed else Held
      | Pressed \<Rightarrow> Pressed
      | LongPressed \<Rightarrow> LongPressed
      | Ignored \<Rightarrow> if is_held then Ignored else Unpressed)"
    by (cases "m_sync_button_state s")
       (simp_all add: UpdateSyncButtonState_def Timer_GetTimeDifference_def Let_def)
  have timer: "m_sync_button_held_timer (UpdateSyncButtonState now s is_held) =
     (if m_sync_button_state s = Unpressed \<and> is_held then now else m_sync_button_held_timer s)"
    by (simp add: UpdateSyncButtonState_def Let_def)
  have consume: "m_sync_button_state s1 =
        (if m_sync_button_state s = Pressed \<or> m_sync_button_state s = LongPressed
         then Ignored else m_sync_button_state s) \<and>
      (m_sync_button_state s = Pressed \<or> m_sync_button_state s = LongPressed \<longrightarrow>
         (\<exists>pre. submitted pre = [] \<and> replied pre = [] \<and>
            es = pre @
              [DisplayMessage (if m_sync_button_state s = Pressed then ''Scanning for Wii Remotes''
                               else ''Reset saved Wii Remote pairings''),
               CopyToEmu (intr_data_address b)
                 (EventHdr \<lparr>hdr_event = HCI_EVENT_VENDOR, hdr_length = 1\<rparr>),
               CopyToEmu (intr_data_address b + 2)
                 (Bytes [if m_sync_button_state s = Pressed then 0x08 else 0x09]),
               EnqueueReply (intr_ios_request b) 3]))"
    if io: "IOCtlV K E s (IOCTLV_USBV0_INTRMSG b) = Inr (s1, es)"
  proof -
    let ?s = "s\<lparr>s_need_reset_keys := m_is_wii_bt_module s \<and> s_need_reset_keys s\<rparr>"
    from IOCtlV_Inr[OF io] obtain pre where
      s1: "s1 = fst (IOCtlV_switch K (memory E) ?s (IOCTLV_USBV0_INTRMSG b))" and
      es: "es = pre @ snd (IOCtlV_switch K (memory E) ?s (IOCTLV_USBV0_INTRMSG b))" and
      pre: "submitted pre = []" "replied pre = []"
      by blast
    have "m_sync_button_state s1 =
        (if m_sync_button_state s = Pressed \<or> m_sync_button_state s = LongPressed
         then Ignored else m_sync_button_state s)"
      by (simp add: s1 fake_defs)
    moreover have "submitted pre = [] \<and> replied pre = [] \<and>
            es = pre @
              [DisplayMessage (if m_sync_button_state s = Pressed then ''Scanning for Wii Remotes''
                               else ''Reset saved Wii Remote pairings''),
               CopyToEmu (intr_data_address b)
                 (EventHdr \<lparr>hdr_event = HCI_EVENT_VENDOR, hdr_length = 1\<rparr>),
               CopyToEmu (intr_data_address b + 2)
                 (Bytes [if m_sync_button_state s = Pressed then 0x08 else 0x09]),
               EnqueueReply (intr_ios_request b) 3]"
      if "m_sync_button_state s = Pressed \<or> m_sync_button_state s = LongPressed"
      using that pre by (auto simp: es fake_defs sizeof_hci_event_hdr_t_def)
    ultimately show ?thesis by blast
  qed
  from sample timer consume show ?thesis by blast
qed

text \<open>
  The witness consumes a long press: the interrupt request gets the event \<open>0x09\<close> and leaves
  the state \<open>Ignored\<close>.
\<close>

theorem sync_button_state_machine_witness:
  "IOCtlV example_constants (example_env []) (example_state\<lparr>m_sync_button_state := LongPressed\<rparr>)
     (IOCTLV_USBV0_INTRMSG (example_intr 0x200)) =
     Inr (example_state\<lparr>m_sync_button_state := Ignored\<rparr>,
          [DisplayMessage ''Reset saved Wii Remote pairings'',
           CopyToEmu 0x2000 (EventHdr \<lparr>hdr_event = 0xFF, hdr_length = 1\<rparr>),
           CopyToEmu 0x2002 (Bytes [0x09]),
           EnqueueReply 0x200 3]) \<and>
   m_sync_button_state (example_state\<lparr>m_sync_button_state := Ignored\<rparr>) = Ignored \<and>
   m_sync_button_state
     (UpdateSyncButtonState 11000 (example_state\<lparr>m_sync_button_state := LongPressed\<rparr>) True) =
     LongPressed"
  (is "?A \<and> ?C1 \<and> ?C2")
proof -
  have a: ?A by code_simp
  from sync_button_state_machine[of 11000 "example_state\<lparr>m_sync_button_state := LongPressed\<rparr>" True
      example_constants "example_env []" "example_intr 0x200"
      "example_state\<lparr>m_sync_button_state := Ignored\<rparr>"] a
  have "?C1 \<and> ?C2" by simp
  with a show ?thesis by blast
qed

text \<open>
  The two sequences of section 8 of the specification, as runs: a long press (held at 0 and
  still held at 11 s) and a short press (held at 0, released at 3 s), each consumed by an
  interrupt request and followed by a sample that is not held.
\<close>

lemma sync_button_long_press_sequence:
  "map (\<lambda>evs. map_sum id (m_sync_button_state \<circ> dev)
                 (run example_constants (example_world example_state) evs))
     [[SyncSample 0 True],
      [SyncSample 0 True, SyncSample 11000 True],
      [SyncSample 0 True, SyncSample 11000 True,
       Guest (example_env []) (IOCTLV_USBV0_INTRMSG (example_intr 0x200))],
      [SyncSample 0 True, SyncSample 11000 True,
       Guest (example_env []) (IOCTLV_USBV0_INTRMSG (example_intr 0x200)), SyncSample 12000 True],
      [SyncSample 0 True, SyncSample 11000 True,
       Guest (example_env []) (IOCTLV_USBV0_INTRMSG (example_intr 0x200)), SyncSample 12000 True,
       SyncSample 13000 False]] =
   [Inr Held, Inr LongPressed, Inr Ignored, Inr Ignored, Inr Unpressed]"
  by code_simp

lemma sync_button_short_press_sequence:
  "map (\<lambda>evs. map_sum id (m_sync_button_state \<circ> dev)
                 (run example_constants (example_world example_state) evs))
     [[SyncSample 0 True],
      [SyncSample 0 True, SyncSample 3000 False],
      [SyncSample 0 True, SyncSample 3000 False,
       Guest (example_env []) (IOCTLV_USBV0_INTRMSG (example_intr 0x200))],
      [SyncSample 0 True, SyncSample 3000 False,
       Guest (example_env []) (IOCTLV_USBV0_INTRMSG (example_intr 0x200)), SyncSample 4000 False]] =
   [Inr Held, Inr Pressed, Inr Ignored, Inr Unpressed]"
  by code_simp

text \<open>At exactly the threshold the button is still only held.\<close>

lemma sync_button_at_threshold:
  "map_sum id (m_sync_button_state \<circ> dev)
     (run example_constants (example_world example_state)
        [SyncSample 0 True, SyncSample 10000 True]) = Inr Held"
  by code_simp


subsection \<open>C9: loading a saved state\<close>

text \<open>
  Claim C9, as amended. \<^verbatim>\<open>DoState\<close> never changes the state of the device. When a state is
  being loaded the operator is warned; the load is aborted (the mode becomes
  \<open>MODE_VERIFY\<close>, with a second message) only if the state being loaded was saved without
  passthrough, and otherwise the load goes on after the warning. In the other modes
  nothing is done.
\<close>

theorem DoState_aborts_only_states_saved_without_passthrough:
  "fst (DoState s mode passthrough_bluetooth) = s \<and>
   snd (DoState s mode passthrough_bluetooth) =
     (if mode = MODE_READ then
        (if passthrough_bluetooth then
           (MODE_READ,
            [PanicAlertT ''Attempted to load a state. Bluetooth will likely be broken now.''])
         else
           (MODE_VERIFY,
            [PanicAlertT ''Attempted to load a state. Bluetooth will likely be broken now.'',
             DisplayMessage ''State needs Bluetooth passthrough to be disabled. Aborting load.'']))
      else (mode, []))"
  by (simp add: DoState_def Let_def)

text \<open>
  Claim C9 as stated fails. When the state being loaded was saved with passthrough, the
  operator is warned and the mode stays \<open>MODE_READ\<close>: the load is not aborted.
\<close>

theorem load_of_passthrough_state_is_not_aborted:
  "DoState example_state MODE_READ True =
     (example_state, MODE_READ,
      [PanicAlertT ''Attempted to load a state. Bluetooth will likely be broken now.''])"
  by (simp add: DoState_def Let_def)

subsection \<open>C5: the delete-stored-link-key command\<close>

text \<open>
  Claim C5 fails on the code. The parameters of the command are read from the address of
  the command header, three bytes too early, so the flag is taken from the fourth byte of
  the address in the command. The guest deletes the one key of address \<open>01 02 03 09 05 06\<close>
  (flag 0) from a store of two keys: the command is forwarded, and the store is emptied.
\<close>

theorem delete_one_key_empties_the_store:
  "IOCtlV example_constants (example_env [0x12, 0x0C, 0x07, 1, 2, 3, 9, 5, 6, 0])
     (example_state\<lparr>s_link_keys := [([1, 2, 3, 9, 5, 6], replicate 16 0x11),
                                    ([7, 7, 7, 7, 7, 7], replicate 16 0x22)]\<rparr>)
     (IOCTLV_USBV0_CTRLMSG (example_ctrl 0x100 10)) =
   Inr (example_state\<lparr>s_link_keys := []\<rparr>,
        [libusb_submit_transfer
           (control_transfer (example_ctrl 0x100 10)
              [0x20, 0, 0, 0, 0, 0, 10, 0, 0x12, 0x0C, 0x07, 1, 2, 3, 9, 5, 6, 0])])"
  by code_simp

text \<open>
  Conversely, a command to delete all keys (flag 1) whose address bytes are zero leaves
  the store as it is.
\<close>

lemma delete_all_keys_leaves_the_store:
  "IOCtlV example_constants (example_env [0x12, 0x0C, 0x07, 0, 0, 0, 0, 0, 0, 1])
     (example_state\<lparr>s_link_keys := [([1, 2, 3, 9, 5, 6], replicate 16 0x11),
                                    ([7, 7, 7, 7, 7, 7], replicate 16 0x22)]\<rparr>)
     (IOCTLV_USBV0_CTRLMSG (example_ctrl 0x100 10)) =
   Inr (example_state\<lparr>s_link_keys := [([1, 2, 3, 9, 5, 6], replicate 16 0x11),
                                        ([7, 7, 7, 7, 7, 7], replicate 16 0x22)]\<rparr>,
        [libusb_submit_transfer
           (control_transfer (example_ctrl 0x100 10)
              [0x20, 0, 0, 0, 0, 0, 10, 0, 0x12, 0x0C, 0x07, 0, 0, 0, 0, 0, 0, 1])])"
  by code_simp

subsection \<open>C3: the link keys after a reset of the adapter\<close>

text \<open>
  Claim C3 fails on the code when the store holds more than eleven keys. The size of the
  parameters is computed in 8 bits: for twelve keys it is 9 instead of 265, the packet is
  12 bytes long, and the loop that copies the keys writes past its end. No
  write-stored-link-keys command built from the store is sent.
\<close>

theorem resend_of_twelve_keys_overruns_the_packet:
  "wf_link_keys (example_keys 12) \<and>
   IOCtlV example_constants (example_env [])
     (example_state\<lparr>s_need_reset_keys := True, s_link_keys := example_keys 12\<rparr>)
     (IOCTLV_USBV0_BLKMSG (example_intr 0x200)) = Inl OutOfBounds"
  by code_simp

text \<open>
  With one to eleven keys the packet is large enough, and the call does what the claim
  says: the delete-all command, at most 100 reads, the write command with all the keys of
  the store, at most 100 reads, and only then what the request itself asks for.
\<close>

lemma IOCtlV_resends_keys_first:
  assumes "\<not> m_is_wii_bt_module s" "s_need_reset_keys s"
    and "s_link_keys s \<noteq> []" "wf_link_keys (s_link_keys s)" "length (s_link_keys s) \<le> 11"
  shows "\<exists>n1 n2. n1 \<le> 100 \<and> n2 \<le> 100 \<and>
           IOCtlV K E s request =
             Inr (fst (IOCtlV_switch K (memory E) (s\<lparr>s_need_reset_keys := False\<rparr>) request),
                  [libusb_control_transfer [0x12, 0x0C, 7, 0, 0, 0, 0, 0, 0, 1]] @
                  replicate n1 libusb_interrupt_transfer @
                  [libusb_control_transfer
                     ([0x11, 0x0C, of_nat (1 + 22 * length (s_link_keys s)),
                       of_nat (length (s_link_keys s))] @
                      concat (map (\<lambda>e. fst e @ snd e) (s_link_keys s)))] @
                  replicate n2 libusb_interrupt_transfer @
                  snd (IOCtlV_switch K (memory E) (s\<lparr>s_need_reset_keys := False\<rparr>) request))"
proof -
  let ?w1 = "WaitForHCICommandComplete HCI_CMD_DELETE_STORED_LINK_KEY (polls E)"
  let ?w2 = "WaitForHCICommandComplete HCI_CMD_WRITE_STORED_LINK_KEY (snd ?w1)"
  obtain n1 where n1: "n1 \<le> 100" "fst ?w1 = replicate n1 libusb_interrupt_transfer"
    unfolding WaitForHCICommandComplete_def using wait_tries_polls by blast
  obtain n2 where n2: "n2 \<le> 100" "fst ?w2 = replicate n2 libusb_interrupt_transfer"
    unfolding WaitForHCICommandComplete_def using wait_tries_polls by blast
  have d: "SendHCIDeleteLinkKeyCommand = [libusb_control_transfer [0x12, 0x0C, 7, 0, 0, 0, 0, 0, 0, 1]]"
    by code_simp
  have h: "le16 HCI_CMD_WRITE_STORED_LINK_KEY = [0x11, 0x0C]"
    by code_simp
  have "IOCtlV K E s request =
             Inr (fst (IOCtlV_switch K (memory E) (s\<lparr>s_need_reset_keys := False\<rparr>) request),
                  [libusb_control_transfer [0x12, 0x0C, 7, 0, 0, 0, 0, 0, 0, 1]] @
                  replicate n1 libusb_interrupt_transfer @
                  [libusb_control_transfer
                     ([0x11, 0x0C, of_nat (1 + 22 * length (s_link_keys s)),
                       of_nat (length (s_link_keys s))] @
                      concat (map (\<lambda>e. fst e @ snd e) (s_link_keys s)))] @
                  replicate n2 libusb_interrupt_transfer @
                  snd (IOCtlV_switch K (memory E) (s\<lparr>s_need_reset_keys := False\<rparr>) request))"
    using assms(1,2) store_cmd_packet[OF assms(3,4,5)] n1(2) n2(2)
    by (simp add: IOCtlV_def Let_def split_beta d h)
  with n1(1) n2(1) show ?thesis by blast
qed

subsection \<open>C6: saving and loading the link keys\<close>

text \<open>
  Claim C6. For every store that upserts, deletions of one key and deletions of all keys
  build from the empty store, loading the text that \<^verbatim>\<open>SaveLinkKeys\<close> produces into an empty
  store gives the same entries again (in the same order, so in particular the same mapping),
  whatever the uninitialised variables of \<^verbatim>\<open>LoadLinkKeys\<close> hold.
\<close>

theorem load_of_saved_link_keys:
  assumes "reachable_link_keys keys"
  shows "LoadLinkKeys X (SaveLinkKeys keys) [] = Inr keys"
proof -
  have wf: "wf_link_keys keys" by (rule reachable_wf[OF assms])
  then have ok: "list_all item_ok (map Inr keys)"
    by (auto simp: wf_link_keys_def list_all_iff)
  have "LoadLinkKeys X (SaveLinkKeys keys) [] = Inr (foldl load_item [] (map Inr keys))"
    unfolding SaveLinkKeys_join by (rule load_items_text[OF ok])
  moreover have "foldl load_item [] (map Inr keys) = [] @ keys"
    by (rule foldl_load_sorted) (use wf in \<open>simp add: wf_link_keys_def\<close>)
  ultimately show ?thesis by simp
qed

text \<open>The witness saves and loads a store of two keys.\<close>

theorem load_of_saved_link_keys_witness:
  "reachable_link_keys
     [([1, 2, 3, 4, 5, 6], [0, 1, 2, 3, 4, 5, 6, 7, 8, 9, 10, 11, 12, 13, 14, 255]),
      ([1, 2, 3, 4, 5, 7], replicate 16 0xAB)] \<and>
   SaveLinkKeys
     [([1, 2, 3, 4, 5, 6], [0, 1, 2, 3, 4, 5, 6, 7, 8, 9, 10, 11, 12, 13, 14, 255]),
      ([1, 2, 3, 4, 5, 7], replicate 16 0xAB)] =
     ''06:05:04:03:02:01=000102030405060708090a0b0c0d0eff,07:05:04:03:02:01=abababababababababababababababab'' \<and>
   LoadLinkKeys example_indeterminate
     ''06:05:04:03:02:01=000102030405060708090a0b0c0d0eff,07:05:04:03:02:01=abababababababababababababababab''
     [] =
     Inr [([1, 2, 3, 4, 5, 6], [0, 1, 2, 3, 4, 5, 6, 7, 8, 9, 10, 11, 12, 13, 14, 255]),
          ([1, 2, 3, 4, 5, 7], replicate 16 0xAB)]"
  (is "reachable_link_keys ?keys \<and> SaveLinkKeys ?keys = ?text \<and> _")
proof -
  have "reachable_link_keys
          (map_assign [1, 2, 3, 4, 5, 7] (replicate 16 0xAB)
             (map_assign [1, 2, 3, 4, 5, 6] [0, 1, 2, 3, 4, 5, 6, 7, 8, 9, 10, 11, 12, 13, 14, 255] []))"
    by (intro reachable_link_keys.upsert reachable_link_keys.empty)
       (simp_all add: sizeof_btaddr_t_def sizeof_linkkey_t_def)
  then have r: "reachable_link_keys ?keys" by simp
  have t: "SaveLinkKeys ?keys = ?text" by code_simp
  from load_of_saved_link_keys[OF r, of example_indeterminate] r t show ?thesis by simp
qed

subsection \<open>C8: malformed entries of the configuration\<close>

text \<open>
  Claim C8 fails on the code. The configuration value \<^verbatim>\<open>00:11:22:33:44:55=aabb\<close> has one
  entry, whose key has two bytes instead of sixteen. \<^verbatim>\<open>LoadLinkKeys\<close> does not skip it: the
  entry is stored under its address, with the two bytes decoded and, in the other fourteen,
  whatever the uninitialised \<^verbatim>\<open>linkkey_t key\<close> held (\<open>0xCD\<close> in the example).
\<close>

theorem entry_with_short_key_is_stored:
  "LoadLinkKeys example_indeterminate ''00:11:22:33:44:55=aabb'' [] =
     Inr [([0x55, 0x44, 0x33, 0x22, 0x11, 0x00],
           [0xAA, 0xBB, 0xCD, 0xCD, 0xCD, 0xCD, 0xCD, 0xCD, 0xCD, 0xCD, 0xCD, 0xCD, 0xCD, 0xCD,
            0xCD, 0xCD])]"
  by code_simp

text \<open>
  A key of more than sixteen bytes is not skipped either: the seventeenth byte is written
  past the end of \<^verbatim>\<open>key\<close>.
\<close>

lemma entry_with_long_key_overruns_the_key:
  "LoadLinkKeys example_indeterminate
     ''00:11:22:33:44:55=000102030405060708090a0b0c0d0e0f1011'' [] = Inl OutOfBounds"
  by code_simp

text \<open>
  What the code does skip are the entries without \<open>=\<close>. Let a configuration text be made of
  items separated by commas, each of which is either some characters without \<open>=\<close> or an
  entry as \<^verbatim>\<open>SaveLinkKeys\<close> writes it (the address with colons, \<open>=\<close>, and the 32 hexadecimal
  digits of the key, in lower case). Then loading does not fail, skips the items without
  \<open>=\<close>, and upserts the entries, in the order of the text.
\<close>

lemma load_skips_entries_without_separator:
  assumes "\<forall>it \<in> set items. item_ok it"
  shows "LoadLinkKeys X (join '','' (map item_text items)) keys = Inr (foldl load_item keys items)"
  by (rule load_items_text) (use assms in \<open>simp add: list_all_iff\<close>)

text \<open>
  For example, an item without \<open>=\<close> and an empty item among two entries.
\<close>

lemma load_skips_entries_without_separator_example:
  "LoadLinkKeys example_indeterminate
     ''junk,00:11:22:33:44:55=000102030405060708090a0b0c0d0e0f,,aa:bb:22:33:44:55=5a5a5a5a5a5a5a5a5a5a5a5a5a5a5a5a''
     [] =
     Inr [([0x55, 0x44, 0x33, 0x22, 0x11, 0x00], [0, 1, 2, 3, 4, 5, 6, 7, 8, 9, 10, 11, 12, 13, 14, 15]),
          ([0x55, 0x44, 0x33, 0x22, 0xBB, 0xAA], replicate 16 0x5A)]"
  by code_simp

end
